theory Spec2Isabelle
  imports Complex_Main "HOL-Library.Sublist" "HOL-Library.Multiset" "HOL-Library.Char_ord" "HOL-Library.List_Lexorder"
begin

section \<open>The status command (cmds/status/status.go)\<close>

subsection \<open>Data model\<close>

text \<open>
  \<open>PingURLs\<close> is \<open>map[string]string\<close>; a nil map and an empty map both read as the
  empty map. \<open>time.Time\<close> is an instant counted in nanoseconds, \<open>time.Duration\<close> a
  number of nanoseconds that fits 64 bits.
\<close>

type_synonym PingURLs = "string \<rightharpoonup> string"

type_synonym Time = int

type_synonym Duration = int

record CachedURLs =
  LastUpdated :: Time
  PingURLs :: PingURLs

record PingResponse =
  Alive :: bool
  Uptime :: real

record APIEntry =
  Name :: string
  Route :: string

record API =
  BaseURL :: string
  Entries :: "APIEntry list"

text \<open>
  A file-system path is the list of its elements below the root, so \<open>filepath.Dir\<close>
  drops the last element and \<open>filepath.Join\<close> appends elements.
\<close>

type_synonym path = "string list"

datatype errno = ENOENT | ENOTDIR | EISDIR | EACCES | EEXIST

datatype error =
    NetworkError string
  | StatusError nat string
  | ParseError
  | URLParseError string
  | MarshalError
  | PathError errno path
  | InvalidArguments

datatype 'a outcome = Returned 'a | Panicked

subsection \<open>The world outside the program\<close>

text \<open>
  The servers answer a GET with a transport failure or with a status code and a body;
  \<open>requests\<close> logs every URL that was requested, in order. The file system maps a
  path to a regular file with its contents, a file the user may not open, or a
  directory; the root is always a directory. \<open>clock\<close> is what \<open>time.Now\<close> reads and
  \<open>stdout\<close> what was printed.
\<close>

datatype http_reply = Unreachable | Reply nat string

datatype node = File string | Locked | Directory

datatype colour = Blue | Magenta | Yellow | Green

datatype out = Plain string | Coloured colour string

record world =
  server :: "string \<Rightarrow> http_reply"
  requests :: "string list"
  fsys :: "path \<rightharpoonup> node"
  clock :: Time
  stdout :: "out list"

text \<open>
  The library functions whose results the program only passes on: \<open>url.Parse\<close>
  followed by \<open>Hostname\<close> (\<open>None\<close> when the parse fails), the JSON decoder at the
  three types it is used at, and \<open>json.MarshalIndent\<close> and \<open>json.Unmarshal\<close> of a
  cache record (\<open>Inr None\<close> is a successful decode that leaves the pointer nil; the
  record that comes with an error is read by no caller). A map decoded from the
  manifest is given as the list of its entries in the order in which \<open>range\<close>
  visits them.
\<close>

record lib =
  urlHostname :: "string \<Rightarrow> string option"
  decodeManifest :: "string \<Rightarrow> (string \<times> string) list option"
  decodeAPI :: "string \<Rightarrow> API option"
  decodePing :: "string \<Rightarrow> PingResponse option"
  marshalIndent :: "CachedURLs \<Rightarrow> string option"
  unmarshal :: "string \<Rightarrow> error + CachedURLs option"

definition manifestURL :: string where
  "manifestURL = ''https://references.taskcluster.net/manifest.json''"

definition say :: "out \<Rightarrow> world \<Rightarrow> world" where
  "say x w = w\<lparr>stdout := stdout w @ [x]\<rparr>"

definition path_text :: "path \<Rightarrow> string" where
  "path_text p = concat (map (\<lambda>e. CHR ''/'' # e) p)"

definition Dir :: "path \<Rightarrow> path" where
  "Dir p = butlast p"

definition lookup :: "(path \<rightharpoonup> node) \<Rightarrow> path \<Rightarrow> node option" where
  "lookup fs p = (if p = [] then Some Directory else fs p)"

text \<open>
  A path is resolved from the root, one element at a time: every element on the way
  must be a directory, a missing one gives \<open>ENOENT\<close> and a file in the way
  \<open>ENOTDIR\<close>. \<open>here\<close> is the part already walked.
\<close>

fun walk :: "(path \<rightharpoonup> node) \<Rightarrow> path \<Rightarrow> path \<Rightarrow> errno + node" where
  "walk fs here [] = (case lookup fs here of None \<Rightarrow> Inl ENOENT | Some n \<Rightarrow> Inr n)"
| "walk fs here (e # rest) =
     (case lookup fs here of
        None \<Rightarrow> Inl ENOENT
      | Some Directory \<Rightarrow> walk fs (here @ [e]) rest
      | Some _ \<Rightarrow> Inl ENOTDIR)"

definition Stat :: "path \<Rightarrow> (path \<rightharpoonup> node) \<Rightarrow> errno + node" where
  "Stat p fs = walk fs [] p"

definition IsNotExist :: "errno + node \<Rightarrow> bool" where
  "IsNotExist r = (r = Inl ENOENT)"

definition ReadFile :: "path \<Rightarrow> (path \<rightharpoonup> node) \<Rightarrow> errno + string" where
  "ReadFile p fs =
     (case Stat p fs of
        Inl e \<Rightarrow> Inl e
      | Inr (File bytes) \<Rightarrow> Inr bytes
      | Inr Locked \<Rightarrow> Inl EACCES
      | Inr Directory \<Rightarrow> Inl EISDIR)"

definition WriteFile :: "path \<Rightarrow> string \<Rightarrow> (path \<rightharpoonup> node) \<Rightarrow> errno + (path \<rightharpoonup> node)" where
  "WriteFile p bytes fs =
     (case Stat p fs of
        Inr Directory \<Rightarrow> Inl EISDIR
      | Inr Locked \<Rightarrow> Inl EACCES
      | Inr (File old) \<Rightarrow> Inr (fs(p \<mapsto> File bytes))
      | Inl ENOENT \<Rightarrow>
         (case Stat (Dir p) fs of
            Inr Directory \<Rightarrow> Inr (fs(p \<mapsto> File bytes))
          | Inr other \<Rightarrow> Inl ENOTDIR
          | Inl e \<Rightarrow> Inl e)
      | Inl e \<Rightarrow> Inl e)"

text \<open>
  \<open>os.MkdirAll\<close>: a path that resolves is fine when it is a directory; otherwise
  the parent is made first and then the directory itself, and a failure of \<open>Mkdir\<close>
  is forgiven when the path is a directory by then.
\<close>

definition Mkdir :: "path \<Rightarrow> (path \<rightharpoonup> node) \<Rightarrow> errno + (path \<rightharpoonup> node)" where
  "Mkdir p fs =
     (case Stat p fs of
        Inr n \<Rightarrow> Inl EEXIST
      | Inl e \<Rightarrow>
         (case Stat (Dir p) fs of
            Inr Directory \<Rightarrow> Inr (fs(p \<mapsto> Directory))
          | Inr other \<Rightarrow> Inl ENOTDIR
          | Inl e' \<Rightarrow> Inl e'))"

lemma Stat_root: "Stat [] fs = Inr Directory"
  by (simp add: Stat_def lookup_def)

function MkdirAll :: "path \<Rightarrow> (path \<rightharpoonup> node) \<Rightarrow> errno + (path \<rightharpoonup> node)" where
  "MkdirAll p fs =
     (case Stat p fs of
        Inr Directory \<Rightarrow> Inr fs
      | Inr other \<Rightarrow> Inl ENOTDIR
      | Inl e \<Rightarrow>
         (case MkdirAll (Dir p) fs of
            Inl err \<Rightarrow> Inl err
          | Inr fs' \<Rightarrow>
             (case Mkdir p fs' of
                Inr fs'' \<Rightarrow> Inr fs''
              | Inl err \<Rightarrow> if Stat p fs' = Inr Directory then Inr fs' else Inl err)))"
  by pat_completeness auto
termination
proof (relation "measure (\<lambda>(p, fs). length p)")
  show "wf (measure (\<lambda>(p, fs). length p))" by simp
next
  fix p :: path and fs :: "path \<rightharpoonup> node" and e
  assume "Stat p fs = Inl e"
  then have "p \<noteq> []" by (auto simp: Stat_root)
  then show "((Dir p, fs), (p, fs)) \<in> measure (\<lambda>(p, fs). length p)"
    by (simp add: Dir_def)
qed

declare MkdirAll.simps [simp del]

subsection \<open>Time\<close>

definition maxDuration :: Duration where
  "maxDuration = 2 ^ 63 - 1"

definition minDuration :: Duration where
  "minDuration = - (2 ^ 63)"

definition Second :: Duration where
  "Second = 1000000000"

definition Hour :: Duration where
  "Hour = 3600 * Second"

text \<open>\<open>t.Sub(u)\<close> saturates at the largest and smallest duration.\<close>

definition Sub :: "Time \<Rightarrow> Time \<Rightarrow> Duration" where
  "Sub t u =
     (if t - u > maxDuration then maxDuration
      else if t - u < minDuration then minDuration
      else t - u)"

definition Since :: "Time \<Rightarrow> world \<Rightarrow> Duration" where
  "Since t w = Sub (clock w) t"

definition Expired :: "CachedURLs \<Rightarrow> Duration \<Rightarrow> world \<Rightarrow> bool" where
  "Expired cachedURLs d w = (Since (LastUpdated cachedURLs) w > d)"

subsection \<open>Fetching\<close>

definition http_Get :: "string \<Rightarrow> world \<Rightarrow> http_reply \<times> world" where
  "http_Get u w = (server w u, w\<lparr>requests := requests w @ [u]\<rparr>)"

definition objectFromJsonURL ::
  "(string \<Rightarrow> 'a option) \<Rightarrow> string \<Rightarrow> world \<Rightarrow> (error + 'a) \<times> world" where
  "objectFromJsonURL decode urlReturningJSON w =
     (case http_Get urlReturningJSON w of
        (Unreachable, w') \<Rightarrow> (Inl (NetworkError urlReturningJSON), w')
      | (Reply code body, w') \<Rightarrow>
          if code \<noteq> 200 then (Inl (StatusError code urlReturningJSON), w')
          else (case decode body of
                  None \<Rightarrow> (Inl ParseError, w')
                | Some object \<Rightarrow> (Inr object, w')))"

text \<open>
  What makes a fetch fail: no answer, a status other than 200, or a body the decoder
  rejects.
\<close>

definition fetchFails :: "(string \<Rightarrow> 'a option) \<Rightarrow> string \<Rightarrow> world \<Rightarrow> bool" where
  "fetchFails decode u w =
     (case server w u of
        Unreachable \<Rightarrow> True
      | Reply code body \<Rightarrow> code \<noteq> 200 \<or> decode body = None)"

text \<open>
  \<open>strings.SplitN\<close> for a separator that is not empty and a count that is not
  negative: \<open>cut\<close> splits at the first occurrence of the separator.
\<close>

fun cut :: "string \<Rightarrow> string \<Rightarrow> (string \<times> string) option" where
  "cut sep [] = None"
| "cut sep (c # cs) =
     (if prefix sep (c # cs) then Some ([], drop (length sep) (c # cs))
      else (case cut sep cs of None \<Rightarrow> None | Some (a, b) \<Rightarrow> Some (c # a, b)))"

fun SplitN :: "string \<Rightarrow> string \<Rightarrow> nat \<Rightarrow> string list" where
  "SplitN s sep 0 = []"
| "SplitN s sep (Suc 0) = [s]"
| "SplitN s sep (Suc (Suc n)) =
     (case cut sep s of
        None \<Rightarrow> [s]
      | Some (a, b) \<Rightarrow> a # SplitN b sep (Suc n))"

text \<open>
  The inner loop of \<open>ScrapePingURLs\<close> over the entries of one reference: the first
  entry named ping decides, and a base URL that does not parse ends the whole scrape
  with the error.
\<close>

fun scanEntries :: "lib \<Rightarrow> API \<Rightarrow> APIEntry list \<Rightarrow> PingURLs \<Rightarrow> PingURLs \<times> error option" where
  "scanEntries L reference [] pingURLs = (pingURLs, None)"
| "scanEntries L reference (entry # entries) pingURLs =
     (if Name entry = ''ping'' then
        (case urlHostname L (BaseURL reference) of
           None \<Rightarrow> (pingURLs, Some (URLParseError (BaseURL reference)))
         | Some hostname \<Rightarrow>
             (let service = SplitN hostname ''.'' 2 ! 0
              in (pingURLs(service \<mapsto> BaseURL reference @ Route entry), None)))
      else scanEntries L reference entries pingURLs)"

text \<open>The outer loop over the manifest, in the order \<open>range\<close> visits it.\<close>

fun scrapeLoop ::
  "lib \<Rightarrow> (string \<times> string) list \<Rightarrow> PingURLs \<Rightarrow> world \<Rightarrow> (PingURLs \<times> error option) \<times> world" where
  "scrapeLoop L [] pingURLs w = ((pingURLs, None), w)"
| "scrapeLoop L ((name, apiURL) # rest) pingURLs w =
     (case objectFromJsonURL (decodeAPI L) apiURL w of
        (Inl err, w') \<Rightarrow> ((pingURLs, Some err), w')
      | (Inr reference, w') \<Rightarrow>
          (case scanEntries L reference (Entries reference) pingURLs of
             (pingURLs', Some err) \<Rightarrow> ((pingURLs', Some err), w')
           | (pingURLs', None) \<Rightarrow> scrapeLoop L rest pingURLs' w'))"

definition ScrapePingURLs ::
  "lib \<Rightarrow> string \<Rightarrow> world \<Rightarrow> (PingURLs \<times> error option) \<times> world" where
  "ScrapePingURLs L manifestURL' w =
     (let w0 = say (Coloured Yellow (''Scraping ping URLs from '' @ manifestURL' @ [CHR 0x0A])) w
      in case objectFromJsonURL (decodeManifest L) manifestURL' w0 of
           (Inl err, w1) \<Rightarrow> ((Map.empty, Some err), w1)
         | (Inr allAPIs, w1) \<Rightarrow> scrapeLoop L allAPIs Map.empty w1)"

text \<open>
  The words of the specification for what the scrape yields: the first entry of a
  reference that is named ping, the service identifier (the hostname up to its first
  dot, the whole hostname when it has none), the pair of identifier and health URL a
  reference contributes, and that a reference is what the fetch of a manifest entry
  returned.
\<close>

definition firstPing :: "API \<Rightarrow> APIEntry option" where
  "firstPing r = find (\<lambda>e. Name e = ''ping'') (API.Entries r)"

definition serviceId :: "string \<Rightarrow> string" where
  "serviceId hostname = takeWhile (\<lambda>c. c \<noteq> CHR ''.'') hostname"

definition endpoint :: "lib \<Rightarrow> API \<Rightarrow> (string \<times> string) option" where
  "endpoint L r =
     (case firstPing r of
        None \<Rightarrow> None
      | Some e \<Rightarrow>
          (case urlHostname L (BaseURL r) of
             None \<Rightarrow> None
           | Some h \<Rightarrow> Some (serviceId h, BaseURL r @ Route e)))"

definition endpoints :: "lib \<Rightarrow> API list \<Rightarrow> (string \<times> string) list" where
  "endpoints L refs = List.map_filter (endpoint L) refs"

definition fetched :: "lib \<Rightarrow> world \<Rightarrow> string \<times> string \<Rightarrow> API \<Rightarrow> bool" where
  "fetched L w entry r =
     (case server w (snd entry) of
        Unreachable \<Rightarrow> False
      | Reply code body \<Rightarrow> code = 200 \<and> decodeAPI L body = Some r)"

subsection \<open>The cache\<close>

text \<open>
  \<open>cacheFile\<close> is a package variable, set once from the home directory; the functions
  that read it take it as their argument \<open>cacheFile\<close>.
\<close>

definition CacheFilePath :: "path \<Rightarrow> path" where
  "CacheFilePath home = home @ [''.taskcluster-cli'', ''cmds'', ''status'', ''cache.json'']"

definition ReadCachedURLsFile ::
  "lib \<Rightarrow> path \<Rightarrow> world \<Rightarrow> (CachedURLs option \<times> error option) \<times> world" where
  "ReadCachedURLsFile L p w =
     (let w0 = say (Coloured Blue (''Reading cache file '' @ path_text p @ [CHR 0x0A])) w
      in case ReadFile p (fsys w0) of
           Inl e \<Rightarrow> ((None, Some (PathError e p)), w0)
         | Inr cachedURLsBytes \<Rightarrow>
             (case unmarshal L cachedURLsBytes of
                Inl err \<Rightarrow> ((None, Some err), w0)
              | Inr cachedURLs \<Rightarrow> ((cachedURLs, None), w0)))"

definition Cache ::
  "lib \<Rightarrow> path \<Rightarrow> PingURLs \<Rightarrow> path \<Rightarrow> world \<Rightarrow> (CachedURLs option \<times> error option) \<times> world" where
  "Cache L cacheFile p path' w =
     (let w0 = say (Coloured Magenta (''Writing cache file '' @ path_text path' @ [CHR 0x0A])) w;
          parentDir = Dir path'
      in case MkdirAll parentDir (fsys w0) of
           Inl e \<Rightarrow> ((None, Some (PathError e parentDir)), w0)
         | Inr fs1 \<Rightarrow>
             (let w1 = w0\<lparr>fsys := fs1\<rparr>;
                  cachedURLs = \<lparr>LastUpdated = clock w1, PingURLs = p\<rparr>
              in case marshalIndent L cachedURLs of
                   None \<Rightarrow> ((Some cachedURLs, Some MarshalError), w1)
                 | Some bytes \<Rightarrow>
                     (case WriteFile cacheFile bytes (fsys w1) of
                        Inl e \<Rightarrow> ((Some cachedURLs, Some (PathError e cacheFile)), w1)
                      | Inr fs2 \<Rightarrow> ((Some cachedURLs, None), w1\<lparr>fsys := fs2\<rparr>))))"

text \<open>
  \<open>RefreshCache\<close> reads the field \<open>PingURLs\<close> through the pointer \<open>Cache\<close> returned,
  which is nil when the directory could not be made: the read panics.
\<close>

definition RefreshCache ::
  "lib \<Rightarrow> path \<Rightarrow> string \<Rightarrow> path \<Rightarrow> world \<Rightarrow> (PingURLs \<times> error option) outcome \<times> world" where
  "RefreshCache L cacheFile manifestURL' path' w =
     (case ScrapePingURLs L manifestURL' w of
        ((pingURLs, Some err), w1) \<Rightarrow> (Returned (pingURLs, Some err), w1)
      | ((pingURLs, None), w1) \<Rightarrow>
          (case Cache L cacheFile pingURLs path' w1 of
             ((None, err), w2) \<Rightarrow> (Panicked, w2)
           | ((Some cachedURLs, err), w2) \<Rightarrow> (Returned (PingURLs cachedURLs, err), w2)))"

definition NewPingURLs ::
  "lib \<Rightarrow> path \<Rightarrow> world \<Rightarrow> (PingURLs \<times> error option) outcome \<times> world" where
  "NewPingURLs L cacheFile w =
     (if IsNotExist (Stat cacheFile (fsys w)) then RefreshCache L cacheFile manifestURL cacheFile w
      else (case ReadCachedURLsFile L cacheFile w of
              ((cachedURLs, Some err), w1) \<Rightarrow> (Returned (Map.empty, Some err), w1)
            | ((None, None), w1) \<Rightarrow> (Panicked, w1)
            | ((Some cachedURLs, None), w1) \<Rightarrow>
                if Expired cachedURLs (Hour * 24) w1
                then RefreshCache L cacheFile manifestURL cacheFile w1
                else (Returned (PingURLs cachedURLs, None), w1)))"

subsection \<open>Arguments and polling\<close>

fun isValidArg :: "string \<Rightarrow> string list \<Rightarrow> bool" where
  "isValidArg arg [] = False"
| "isValidArg arg (validArg # validArgs) =
     (if arg = validArg then True else isValidArg arg validArgs)"

fun validateArgs :: "string list \<Rightarrow> string list \<Rightarrow> error option" where
  "validateArgs validArgs [] = None"
| "validateArgs validArgs (arg # args) =
     (if isValidArg arg validArgs then validateArgs validArgs args
      else Some InvalidArguments)"

definition preRun :: "string list \<Rightarrow> string list \<Rightarrow> error option" where
  "preRun validArgs args = validateArgs validArgs args"

text \<open>An identifier that is not a key of the map reads as the empty URL.\<close>

definition respbody :: "lib \<Rightarrow> PingURLs \<Rightarrow> string \<Rightarrow> world \<Rightarrow> error option \<times> world" where
  "respbody L pingURLs service w =
     (case objectFromJsonURL (decodePing L)
             (case pingURLs service of None \<Rightarrow> [] | Some u \<Rightarrow> u) w of
        (Inl err, w') \<Rightarrow> (Some err, w')
      | (Inr servstat, w') \<Rightarrow>
          if Alive servstat = True
          then (None, say (Coloured Green (''      '' @ ''Alive'' @ [CHR 0x0A]))
                        (say (Plain (''      '' @ service @ [CHR 0x0A])) w'))
          else (None, w'))"

fun statusLoop :: "lib \<Rightarrow> PingURLs \<Rightarrow> string list \<Rightarrow> world \<Rightarrow> error option outcome \<times> world" where
  "statusLoop L pingURLs [] w = (Returned None, w)"
| "statusLoop L pingURLs (service # rest) w =
     (case respbody L pingURLs service w of
        (Some err, w') \<Rightarrow> (Panicked, w')
      | (None, w') \<Rightarrow> statusLoop L pingURLs rest w')"

definition status ::
  "lib \<Rightarrow> PingURLs \<Rightarrow> string list \<Rightarrow> string list \<Rightarrow> world \<Rightarrow> error option outcome \<times> world" where
  "status L pingURLs validArgs args w =
     statusLoop L pingURLs (if length args = 0 then validArgs else args) w"

text \<open>
  The command is registered with \<open>PreRunE: preRun\<close> and \<open>RunE: status\<close>: the command
  runner calls \<open>PreRunE\<close> first and calls \<open>RunE\<close> only when it returned no error.
\<close>

definition runStatusCmd ::
  "lib \<Rightarrow> PingURLs \<Rightarrow> string list \<Rightarrow> string list \<Rightarrow> world \<Rightarrow> error option outcome \<times> world" where
  "runStatusCmd L pingURLs validArgs args w =
     (case preRun validArgs args of
        Some err \<Rightarrow> (Returned (Some err), w)
      | None \<Rightarrow> status L pingURLs validArgs args w)"

subsection \<open>What the JSON encoding does to the ping URLs\<close>

text \<open>
  \<open>encoding/json\<close> is not part of the sources. What it does to the strings of a map
  is written out here: a byte that is not part of a valid UTF-8 sequence is encoded
  as U+FFFD, every other byte comes back as it was. \<open>runeSize\<close> is the length of the
  UTF-8 sequence at the head of a string, and zero where there is none (there
  \<open>utf8.DecodeRuneInString\<close> answers \<open>RuneError\<close> with width one).
\<close>

definition isCont :: "char \<Rightarrow> bool" where
  "isCont c = (0x80 \<le> (of_char c :: nat) \<and> (of_char c :: nat) \<le> 0xBF)"

definition secondOK :: "nat \<Rightarrow> char \<Rightarrow> bool" where
  "secondOK b c =
     (let lo = (if b = 0xE0 then 0xA0 else if b = 0xF0 then 0x90 else 0x80);
          hi = (if b = 0xED then 0x9F else if b = 0xF4 then 0x8F else 0xBF)
      in lo \<le> (of_char c :: nat) \<and> (of_char c :: nat) \<le> hi)"

fun runeSize :: "string \<Rightarrow> nat" where
  "runeSize [] = 0"
| "runeSize (c # cs) =
     (let b = (of_char c :: nat) in
      if b < 0x80 then 1
      else if 0xC2 \<le> b \<and> b \<le> 0xDF then
        (case cs of c1 # rest \<Rightarrow> if isCont c1 then 2 else 0 | _ \<Rightarrow> 0)
      else if 0xE0 \<le> b \<and> b \<le> 0xEF then
        (case cs of c1 # c2 # rest \<Rightarrow> if secondOK b c1 \<and> isCont c2 then 3 else 0 | _ \<Rightarrow> 0)
      else if 0xF0 \<le> b \<and> b \<le> 0xF4 then
        (case cs of c1 # c2 # c3 # rest \<Rightarrow>
           if secondOK b c1 \<and> isCont c2 \<and> isCont c3 then 4 else 0 | _ \<Rightarrow> 0)
      else 0)"

text \<open>
  \<open>toValidUTF8\<close> is a string after encoding and decoding: each byte at which no
  sequence starts is replaced by the three bytes of U+FFFD. \<open>validUTF8\<close> is
  \<open>utf8.ValidString\<close>: the string is a row of sequences.
\<close>

definition replacementChar :: string where
  "replacementChar = [CHR 0xEF, CHR 0xBF, CHR 0xBD]"

function toValidUTF8 :: "string \<Rightarrow> string" where
  "toValidUTF8 s =
     (if s = [] then []
      else (case runeSize s of
              0 \<Rightarrow> replacementChar @ toValidUTF8 (tl s)
            | Suc n \<Rightarrow> take (Suc n) s @ toValidUTF8 (drop (Suc n) s)))"
  by pat_completeness auto
termination
  by (relation "measure length") (auto intro: diff_less)

declare toValidUTF8.simps [simp del]

function validUTF8 :: "string \<Rightarrow> bool" where
  "validUTF8 s =
     (if s = [] then True
      else (case runeSize s of
              0 \<Rightarrow> False
            | Suc n \<Rightarrow> validUTF8 (drop (Suc n) s)))"
  by pat_completeness auto
termination
  by (relation "measure length") (auto intro: diff_less)

declare validUTF8.simps [simp del]

text \<open>
  \<open>json.MarshalIndent\<close> writes the entries of a map in the sorted order of their keys,
  \<open>json.Unmarshal\<close> stores them in the order it reads them, so of two entries whose
  keys have become equal the later one stays.
\<close>

definition encodeMap :: "PingURLs \<Rightarrow> (string \<times> string) list" where
  "encodeMap m =
     map (\<lambda>k. (toValidUTF8 k, toValidUTF8 (case m k of None \<Rightarrow> [] | Some v \<Rightarrow> v)))
       (sorted_list_of_set (dom m))"

definition decodeMap :: "(string \<times> string) list \<Rightarrow> PingURLs" where
  "decodeMap kvs = fold (\<lambda>(k, v) m. m(k \<mapsto> v)) kvs Map.empty"

definition viaJSON :: "PingURLs \<Rightarrow> PingURLs" where
  "viaJSON m = decodeMap (encodeMap m)"

text \<open>
  What a pair of \<open>marshalIndent\<close> and \<open>unmarshal\<close> has to do to stand for
  \<open>encoding/json\<close>: the bytes made of a record decode to a record with the ping URLs
  as they come out of the encoding. Nothing is asked of the time stamp.
\<close>

definition encodingJSON :: "lib \<Rightarrow> bool" where
  "encodingJSON L =
     (\<forall>c bytes. finite (dom (PingURLs c)) \<longrightarrow> marshalIndent L c = Some bytes \<longrightarrow>
        (\<exists>t. unmarshal L bytes = Inr (Some \<lparr>LastUpdated = t, PingURLs = viaJSON (PingURLs c)\<rparr>)))"

section \<open>The generator (package apis)\<close>

subsection \<open>Collecting the schemas\<close>

text \<open>
  Modelled from the spec: the type \<open>definitions.Service\<close>, which is declared in a
  package that is not among the sources. Of a service the collector reads the entries,
  and of an entry the input and the output schema URL (empty when there is none).
\<close>

record Entry =
  Input :: string
  Output :: string

record Service =
  Entries :: "Entry list"

text \<open>
  \<open>urls\<close> is the \<open>map[string]bool\<close> of the URLs already scheduled (a missing key reads
  as false); \<open>launched\<close> lists the goroutines started so far, each by the URL it passes
  to \<open>fetchSchema\<close>, which fetches it once. \<open>addSchema\<close> runs in the one goroutine
  that ranges over the services, here in the order \<open>range\<close> visits them.
\<close>

record collector =
  urls :: "string \<Rightarrow> bool"
  launched :: "string list"

definition addSchema :: "string \<Rightarrow> collector \<Rightarrow> collector" where
  "addSchema url c =
     (if url = [] \<or> urls c url then c
      else c\<lparr>urls := (urls c)(url := True), launched := launched c @ [url]\<rparr>)"

definition collectSchemas :: "Service list \<Rightarrow> collector" where
  "collectSchemas services =
     fold (\<lambda>s. fold (\<lambda>e c. addSchema (Output e) (addSchema (Input e) c)) (Service.Entries s))
       services \<lparr>urls = (\<lambda>u. False), launched = []\<rparr>"

definition referenced :: "Service list \<Rightarrow> string set" where
  "referenced services = (\<Union>s\<in>set services. \<Union>e\<in>set (Service.Entries s). {Input e, Output e})"

subsection \<open>The emitter\<close>

text \<open>
  The values \<open>PrettyPrint\<close> walks, by the kind reflection reports, each with the text
  of its type where the function prints it: a slice (nil or not), an array, a struct
  with its fields in declaration order, a map with keys of type string, a map with
  keys of another kind, and a value of any other kind. A map is given by its entries
  in the order in which \<open>MapKeys\<close> lists them, and \<open>MapIndex\<close> looks a key up.
  \<open>fmt\<close> is the \<open>%#v\<close> text of a value of another kind and \<open>quote\<close> that of a
  string.
\<close>

datatype 'a val =
    VSlice string "'a val list option"
  | VArray string "'a val list"
  | VStruct string "(string \<times> 'a val) list"
  | VStrMap string "(string \<times> 'a val) list"
  | VMap string "('a \<times> 'a val) list"
  | VOther 'a

record generator =
  buf :: string

definition Print :: "string \<Rightarrow> generator \<Rightarrow> generator" where
  "Print a g = g\<lparr>buf := buf g @ a\<rparr>"

lemma size_map_of:
  "map_of kvs k = Some x \<Longrightarrow> size (x :: 'a val) < Suc (size_list (size_prod (\<lambda>_. 0) size) kvs)"
  by (induction kvs) (auto split: if_splits)

lemma size_elem: "x \<in> set xs \<Longrightarrow> size (x :: 'a val) < Suc (size_list size xs)"
  by (induction xs) auto

lemma size_field:
  "(a, b) \<in> set flds \<Longrightarrow> size (b :: 'a val) < Suc (size_list (size_prod (\<lambda>x. 0) size) flds)"
  by (induction flds) auto

function PrettyPrint :: "('a \<Rightarrow> string) \<Rightarrow> (string \<Rightarrow> string) \<Rightarrow> 'a val \<Rightarrow> generator \<Rightarrow> generator" where
  "PrettyPrint fmt quote (VSlice t None) g = Print ''(nil)'' (Print t g)"
| "PrettyPrint fmt quote (VSlice t (Some xs)) g =
     Print ''}''
       (fold (\<lambda>x g. Print ('','' @ [CHR 0x0A]) (PrettyPrint fmt quote x g)) xs
          (Print (''{'' @ [CHR 0x0A]) (Print t g)))"
| "PrettyPrint fmt quote (VArray t xs) g =
     Print ''}''
       (fold (\<lambda>x g. Print ('','' @ [CHR 0x0A]) (PrettyPrint fmt quote x g)) xs
          (Print (''{'' @ [CHR 0x0A]) (Print t g)))"
| "PrettyPrint fmt quote (VStruct t flds) g =
     Print ''}''
       (fold (\<lambda>(name, x) g. Print ('','' @ [CHR 0x0A]) (PrettyPrint fmt quote x (Print (name @ '': '') g)))
          flds (Print (t @ ''{'' @ [CHR 0x0A]) g))"
| "PrettyPrint fmt quote (VStrMap t kvs) g =
     (let g0 = Print (t @ ''{'' @ [CHR 0x0A]) g; keys = map fst kvs
      in if length keys = 0 then Print ''}'' g0
         else Print ''}''
                (fold (\<lambda>k g. case map_of kvs k of
                                None \<Rightarrow> g
                              | Some x \<Rightarrow> Print ('','' @ [CHR 0x0A])
                                            (PrettyPrint fmt quote x (Print (quote k @ '': '') g)))
                   (sort keys) g0))"
| "PrettyPrint fmt quote (VMap t kvs) g =
     (let g0 = Print (t @ ''{'' @ [CHR 0x0A]) g; keys = map fst kvs
      in if length keys = 0 then Print ''}'' g0
         else Print ''}''
                (fold (\<lambda>k g. case map_of kvs k of
                                None \<Rightarrow> g
                              | Some x \<Rightarrow> Print ('','' @ [CHR 0x0A])
                                            (PrettyPrint fmt quote x (Print (fmt k @ '': '') g)))
                   keys g0))"
| "PrettyPrint fmt quote (VOther a) g = Print (fmt a) g"
  by pat_completeness auto
termination
  by (relation "measure (\<lambda>(fmt, quote, v, g). size v)")
     (auto simp: size_map_of size_field size_elem less_SucI)

text \<open>
  The part of \<open>GenerateServices\<close> that writes: the header, then each of the two
  maps after its variable, given the services and the schemas the fetches returned.
  \<open>Format\<close> hands the buffer to the formatter of the Go distribution.
\<close>

definition emitServices ::
  "('a \<Rightarrow> string) \<Rightarrow> (string \<Rightarrow> string) \<Rightarrow> string \<Rightarrow> string \<Rightarrow> 'a val \<Rightarrow> 'a val \<Rightarrow> generator" where
  "emitServices fmt quote servicesVar schemasVar services schemas =
     (let gen = \<lparr>buf = []\<rparr>;
          gen = Print (''package apis'' @ [CHR 0x0A]) gen;
          gen = Print (''// Code generated by fetch-apis; DO NOT EDIT'' @ [CHR 0x0A]) gen;
          gen = Print [CHR 0x0A] gen;
          gen = Print (''import '' @ [CHR 0x22] @ ''github.com/taskcluster/taskcluster-cli/apis/definitions''
                         @ [CHR 0x22, CHR 0x0A]) gen;
          gen = Print [CHR 0x0A] gen;
          gen = Print (''var '' @ servicesVar @ '' = '') gen;
          gen = PrettyPrint fmt quote services gen;
          gen = Print [CHR 0x0A] gen;
          gen = Print (''var '' @ schemasVar @ '' = '') gen;
          gen = PrettyPrint fmt quote schemas gen;
          gen = Print [CHR 0x0A] gen
      in gen)"


text \<open>The text \<open>PrettyPrint\<close> appends for a value.\<close>

definition emitted :: "('a \<Rightarrow> string) \<Rightarrow> (string \<Rightarrow> string) \<Rightarrow> 'a val \<Rightarrow> string" where
  "emitted fmt quote v = buf (PrettyPrint fmt quote v \<lparr>buf = []\<rparr>)"


text \<open>
  Two values are the same Go value when they differ at most in the order in which
  the entries of their maps are listed: a map has each key once, and both list the
  same keys with the same values. \<open>stringKeyed\<close> holds of a value in which every
  map has keys of type string, as in the services (a \<open>map[string]definitions.Service\<close>)
  and the schemas (a \<open>map[string]string\<close>).
\<close>

inductive same :: "'a val \<Rightarrow> 'a val \<Rightarrow> bool" where
  same_Other: "same (VOther a) (VOther a)"
| same_nil: "same (VSlice t None) (VSlice t None)"
| same_Slice: "list_all2 same xs ys \<Longrightarrow> same (VSlice t (Some xs)) (VSlice t (Some ys))"
| same_Array: "list_all2 same xs ys \<Longrightarrow> same (VArray t xs) (VArray t ys)"
| same_Struct: "list_all2 (rel_prod (=) same) flds flds' \<Longrightarrow> same (VStruct t flds) (VStruct t flds')"
| same_StrMap:
    "distinct (map fst kvs) \<Longrightarrow> distinct (map fst kvs') \<Longrightarrow>
     (\<forall>k. rel_option same (map_of kvs k) (map_of kvs' k)) \<Longrightarrow>
     same (VStrMap t kvs) (VStrMap t kvs')"
| same_Map:
    "distinct (map fst kvs) \<Longrightarrow> distinct (map fst kvs') \<Longrightarrow>
     (\<forall>k. rel_option same (map_of kvs k) (map_of kvs' k)) \<Longrightarrow>
     same (VMap t kvs) (VMap t kvs')"

function stringKeyed :: "'a val \<Rightarrow> bool" where
  "stringKeyed (VSlice t None) = True"
| "stringKeyed (VSlice t (Some xs)) = (\<forall>x\<in>set xs. stringKeyed x)"
| "stringKeyed (VArray t xs) = (\<forall>x\<in>set xs. stringKeyed x)"
| "stringKeyed (VStruct t flds) = (\<forall>(name, x)\<in>set flds. stringKeyed x)"
| "stringKeyed (VStrMap t kvs) = (\<forall>(k, x)\<in>set kvs. stringKeyed x)"
| "stringKeyed (VMap t kvs) = False"
| "stringKeyed (VOther a) = True"
  by pat_completeness auto
termination
  by (relation "measure size") (auto simp: size_field size_elem less_SucI)


text \<open>
  What the collector keeps true: the URLs marked in \<open>urls\<close> are those launched, each
  launched once, and the empty URL never.
\<close>

definition scheduled :: "collector \<Rightarrow> bool" where
  "scheduled c = ((\<forall>u. urls c u = (u \<in> set (launched c))) \<and> distinct (launched c)
                  \<and> [] \<notin> set (launched c))"


section \<open>A small world to run the program in\<close>

text \<open>
  One manifest with one service, as in the scenario of the specification: the
  reference of the queue has the base URL \<open>https://queue.example.com\<close> and a ping
  entry with the route \<open>/ping\<close>. The bodies are named, not spelled out; the decoders
  are tables on these names.
\<close>

definition demoLib :: lib where
  "demoLib =
     \<lparr>urlHostname = (\<lambda>u. if take 8 u = ''https://''
                          then Some (takeWhile (\<lambda>c. c \<noteq> CHR ''/'' \<and> c \<noteq> CHR '':'') (drop 8 u))
                          else None),
      decodeManifest = (\<lambda>b. if b = ''manifest'' then Some [(''queue'', ''https://ref.example/queue'')]
                             else None),
      decodeAPI = (\<lambda>b. if b = ''queue-reference''
                        then Some \<lparr>BaseURL = ''https://queue.example.com'',
                                   API.Entries = [\<lparr>Name = ''ping'', Route = ''/ping''\<rparr>]\<rparr>
                        else None),
      decodePing = (\<lambda>b. if b = ''alive'' then Some \<lparr>Alive = True, Uptime = 12.5\<rparr>
                         else if b = ''down'' then Some \<lparr>Alive = False, Uptime = 0\<rparr>
                         else None),
      marshalIndent = (\<lambda>c. Some ''cache-bytes''),
      unmarshal = (\<lambda>b. if b = ''cache-bytes''
                        then Inr (Some \<lparr>LastUpdated = 0,
                                         PingURLs = [''queue'' \<mapsto> ''https://queue.example.com/ping'']\<rparr>)
                        else Inl ParseError)\<rparr>"

definition demoWorld :: world where
  "demoWorld =
     \<lparr>server = (\<lambda>u. if u = manifestURL then Reply 200 ''manifest''
                     else if u = ''https://ref.example/queue'' then Reply 200 ''queue-reference''
                     else if u = ''https://queue.example.com/ping'' then Reply 200 ''alive''
                     else if u = ''https://auth.example.com/ping'' then Reply 200 ''down''
                     else Unreachable),
      requests = [], fsys = Map.empty, clock = 0, stdout = []\<rparr>"

definition demoCacheFile :: path where
  "demoCacheFile = CacheFilePath [''home'', ''user'']"

definition demoPingURLs :: PingURLs where
  "demoPingURLs = [''queue'' \<mapsto> ''https://queue.example.com/ping'',
                   ''auth'' \<mapsto> ''https://auth.example.com/ping'']"

text \<open>
  The same world with the directory of the cache file in place, and what it becomes
  when \<open>Cache\<close> is called there with another path.
\<close>

definition homeWorld :: world where
  "homeWorld = demoWorld\<lparr>fsys := [[''home''] \<mapsto> Directory, [''home'', ''user''] \<mapsto> Directory,
     [''home'', ''user'', ''.taskcluster-cli''] \<mapsto> Directory,
     [''home'', ''user'', ''.taskcluster-cli'', ''cmds''] \<mapsto> Directory,
     [''home'', ''user'', ''.taskcluster-cli'', ''cmds'', ''status''] \<mapsto> Directory]\<rparr>"

text \<open>
  The world with the directory in place and a cache file in it: one that does not
  parse, one that parses and is fresh, and the same a little more than a day later.
  In the last world the home directory of the user is a regular file.
\<close>

definition corruptWorld :: world where
  "corruptWorld = homeWorld\<lparr>fsys := (fsys homeWorld)(demoCacheFile \<mapsto> File ''garbage'')\<rparr>"

definition freshWorld :: world where
  "freshWorld = homeWorld\<lparr>fsys := (fsys homeWorld)(demoCacheFile \<mapsto> File ''cache-bytes'')\<rparr>"

definition staleWorld :: world where
  "staleWorld = freshWorld\<lparr>clock := Hour * 24 + 1\<rparr>"

definition blockedWorld :: world where
  "blockedWorld = demoWorld\<lparr>fsys := [[''home''] \<mapsto> Directory, [''home'', ''user''] \<mapsto> File []]\<rparr>"

definition elsewhereWorld :: world where
  "elsewhereWorld =
     homeWorld\<lparr>stdout := [Coloured Magenta (''Writing cache file /tmp/elsewhere/cache.json'' @ [CHR 0x0A])],
       fsys := (fsys homeWorld)([''tmp''] \<mapsto> Directory, [''tmp'', ''elsewhere''] \<mapsto> Directory,
                 demoCacheFile \<mapsto> File ''cache-bytes'')\<rparr>"

text \<open>
  A manifest with two services whose hostnames start alike, \<open>queue.example.com\<close>
  and \<open>queue.events.example.com\<close>, visited in one order and in the other.
\<close>

definition queueReference :: API where
  "queueReference = \<lparr>BaseURL = ''https://queue.example.com'',
                      API.Entries = [\<lparr>Name = ''ping'', Route = ''/ping''\<rparr>]\<rparr>"

definition queueEventsReference :: API where
  "queueEventsReference = \<lparr>BaseURL = ''https://queue.events.example.com'',
                      API.Entries = [\<lparr>Name = ''list'', Route = ''/v1/list''\<rparr>,
                                     \<lparr>Name = ''ping'', Route = ''/v1/ping''\<rparr>]\<rparr>"

definition clashLib :: lib where
  "clashLib = demoLib
     \<lparr>decodeManifest := (\<lambda>b. if b = ''manifest''
                              then Some [(''queue'', ''https://ref.example/queue''),
                                         (''queue-events'', ''https://ref.example/queue-events'')]
                              else None),
      decodeAPI := (\<lambda>b. if b = ''queue-reference'' then Some queueReference
                         else if b = ''queue-events-reference'' then Some queueEventsReference
                         else None)\<rparr>"

definition clashLibRev :: lib where
  "clashLibRev = clashLib
     \<lparr>decodeManifest := (\<lambda>b. if b = ''manifest''
                              then Some [(''queue-events'', ''https://ref.example/queue-events''),
                                         (''queue'', ''https://ref.example/queue'')]
                              else None)\<rparr>"

definition clashWorld :: world where
  "clashWorld = demoWorld
     \<lparr>server := (\<lambda>u. if u = manifestURL then Reply 200 ''manifest''
                      else if u = ''https://ref.example/queue'' then Reply 200 ''queue-reference''
                      else if u = ''https://ref.example/queue-events''
                           then Reply 200 ''queue-events-reference''
                      else Unreachable)\<rparr>"

text \<open>
  Three entries of two services that name the same schema, and a services map and a
  schemas map, each listed in two orders.
\<close>

definition demoServices :: "Service list" where
  "demoServices =
     [\<lparr>Service.Entries = [\<lparr>Input = ''https://schemas.example/task.json'', Output = []\<rparr>,
                          \<lparr>Input = ''https://schemas.example/task.json'',
                           Output = ''https://schemas.example/status.json''\<rparr>]\<rparr>,
      \<lparr>Service.Entries = [\<lparr>Input = [], Output = ''https://schemas.example/task.json''\<rparr>]\<rparr>]"


definition demoServiceMap :: "string val" where
  "demoServiceMap =
     VStrMap ''map[string]definitions.Service''
       [(''queue'', VStruct ''definitions.Service''
                      [(''BaseURL'', VOther ''https://queue.example.com''),
                       (''Entries'', VSlice ''[]definitions.Entry'' (Some []))]),
        (''auth'', VStruct ''definitions.Service''
                      [(''BaseURL'', VOther ''https://auth.example.com''),
                       (''Entries'', VSlice ''[]definitions.Entry'' None)])]"

definition demoServiceMap' :: "string val" where
  "demoServiceMap' =
     VStrMap ''map[string]definitions.Service''
       [(''auth'', VStruct ''definitions.Service''
                      [(''BaseURL'', VOther ''https://auth.example.com''),
                       (''Entries'', VSlice ''[]definitions.Entry'' None)]),
        (''queue'', VStruct ''definitions.Service''
                      [(''BaseURL'', VOther ''https://queue.example.com''),
                       (''Entries'', VSlice ''[]definitions.Entry'' (Some []))])]"

definition demoSchemas :: "string val" where
  "demoSchemas =
     VStrMap ''map[string]string''
       [(''https://schemas.example/task.json'', VOther ''{}''),
        (''https://schemas.example/status.json'', VOther ''[]'')]"

definition demoSchemas' :: "string val" where
  "demoSchemas' =
     VStrMap ''map[string]string''
       [(''https://schemas.example/status.json'', VOther ''[]''),
        (''https://schemas.example/task.json'', VOther ''{}'')]"

definition goQuote :: "string \<Rightarrow> string" where
  "goQuote s = CHR 0x22 # s @ [CHR 0x22]"


text \<open>
  Two pairs of encoder and decoder that stand for \<open>encoding/json\<close> on one map each
  (and encode no other): the ping URLs of the queue, and a map whose one key is the
  byte \<open>0xFF\<close>, which is not valid UTF-8.
\<close>

definition jsonLib :: lib where
  "jsonLib = demoLib
     \<lparr>marshalIndent := (\<lambda>c. if PingURLs c = [''queue'' \<mapsto> ''https://queue.example.com/ping'']
                             then Some ''cache-bytes'' else None)\<rparr>"

definition ffURLs :: PingURLs where
  "ffURLs = [[CHR 0xFF] \<mapsto> ''x'']"

definition ffLib :: lib where
  "ffLib = demoLib
     \<lparr>marshalIndent := (\<lambda>c. if PingURLs c = ffURLs then Some ''ff-bytes'' else None),
      unmarshal := (\<lambda>b. if b = ''ff-bytes''
                         then Inr (Some \<lparr>LastUpdated = 0, PingURLs = [replacementChar \<mapsto> ''x'']\<rparr>)
                         else Inl ParseError)\<rparr>"

section \<open>Expiry\<close>

lemma Sub_24: "Hour * 24 < Sub t u \<longleftrightarrow> Hour * 24 < t - u"
  by (simp add: Sub_def Hour_def Second_def maxDuration_def minDuration_def)

text \<open>
  C3, as the code has it. \<open>Expired\<close> with a maximal age of 24 hours is true exactly
  when the current time minus \<open>LastUpdated\<close> is strictly more than 24 hours: at
  exactly 24 hours, and at 24 hours minus one second, it is false.
\<close>

theorem Expired_after_24h:
  "Expired r (Hour * 24) w = (Hour * 24 < clock w - LastUpdated r)
   \<and> (clock w - LastUpdated r = Hour * 24 \<longrightarrow> Expired r (Hour * 24) w = False)
   \<and> (clock w - LastUpdated r = Hour * 24 - Second \<longrightarrow> Expired r (Hour * 24) w = False)"
  by (simp add: Expired_def Since_def Sub_24 Second_def)

theorem Expired_after_24h_witness:
  "Expired \<lparr>LastUpdated = 0, PingURLs = Map.empty\<rparr> (Hour * 24) (demoWorld\<lparr>clock := Hour * 24 + 1\<rparr>) = True
   \<and> Expired \<lparr>LastUpdated = 5, PingURLs = Map.empty\<rparr> (Hour * 24) (demoWorld\<lparr>clock := Hour * 24 + 5\<rparr>) = False
   \<and> Expired \<lparr>LastUpdated = 0, PingURLs = Map.empty\<rparr> (Hour * 24) (demoWorld\<lparr>clock := Hour * 24 - Second\<rparr>) = False"
  using Expired_after_24h [of "\<lparr>LastUpdated = 0, PingURLs = Map.empty\<rparr>" "demoWorld\<lparr>clock := Hour * 24 + 1\<rparr>"]
    Expired_after_24h [of "\<lparr>LastUpdated = 5, PingURLs = Map.empty\<rparr>" "demoWorld\<lparr>clock := Hour * 24 + 5\<rparr>"]
    Expired_after_24h [of "\<lparr>LastUpdated = 0, PingURLs = Map.empty\<rparr>" "demoWorld\<lparr>clock := Hour * 24 - Second\<rparr>"]
  by (simp add: Second_def)

text \<open>
  C3, as the claim has it, fails: a record whose \<open>LastUpdated\<close> is exactly 24 hours
  before the current time is not expired.
\<close>

theorem Expired_at_24h_counterexample:
  "clock (demoWorld\<lparr>clock := Hour * 24\<rparr>) - LastUpdated \<lparr>LastUpdated = 0, PingURLs = Map.empty\<rparr> = Hour * 24
   \<and> Expired \<lparr>LastUpdated = 0, PingURLs = Map.empty\<rparr> (Hour * 24) (demoWorld\<lparr>clock := Hour * 24\<rparr>) = False"
  by (simp add: Expired_def Since_def Sub_def Hour_def Second_def maxDuration_def minDuration_def)

section \<open>Validation of the arguments\<close>

lemma isValidArg_iff: "isValidArg arg validArgs \<longleftrightarrow> arg \<in> set validArgs"
  by (induction validArgs) auto

lemma validateArgs_iff:
  "validateArgs validArgs args = (if set args \<subseteq> set validArgs then None else Some InvalidArguments)"
  by (induction args) (auto simp: isValidArg_iff)

text \<open>
  C8. When some argument is not among the valid arguments, \<open>preRun\<close> returns an error,
  and the command returns that error with the world as it was: \<open>status\<close> is not run,
  so no URL is requested for any argument.
\<close>

theorem unknown_argument_rejected:
  assumes "\<exists>arg\<in>set args. arg \<notin> set validArgs"
  shows "preRun validArgs args = Some InvalidArguments
       \<and> runStatusCmd L pingURLs validArgs args w = (Returned (Some InvalidArguments), w)
       \<and> requests (snd (runStatusCmd L pingURLs validArgs args w)) = requests w"
  using assms by (auto simp: preRun_def runStatusCmd_def validateArgs_iff)

theorem unknown_argument_rejected_witness:
  "preRun [''queue'', ''auth''] [''queue'', ''bogus''] = Some InvalidArguments
   \<and> runStatusCmd demoLib demoPingURLs [''queue'', ''auth''] [''queue'', ''bogus''] demoWorld
       = (Returned (Some InvalidArguments), demoWorld)
   \<and> requests (snd (runStatusCmd demoLib demoPingURLs [''queue'', ''auth''] [''queue'', ''bogus''] demoWorld))
       = requests demoWorld"
  using unknown_argument_rejected [of "[''queue'', ''bogus'']" "[''queue'', ''auth'']" demoLib
      demoPingURLs demoWorld]
  by simp

section \<open>Polling\<close>

text \<open>
  C9. When the health endpoint of a service answers 200 with a body that decodes to a
  \<open>PingResponse\<close>, \<open>respbody\<close> returns no error, and it prints the two lines of the
  report when \<open>Alive\<close> is true and nothing when it is false.
\<close>

theorem respbody_reports:
  assumes "server w (case pingURLs service of None \<Rightarrow> [] | Some u \<Rightarrow> u) = Reply 200 body"
      and "decodePing L body = Some servstat"
  shows "fst (respbody L pingURLs service w) = None
       \<and> stdout (snd (respbody L pingURLs service w)) =
           stdout w @ (if Alive servstat
                       then [Plain (''      '' @ service @ [CHR 0x0A]),
                             Coloured Green (''      Alive'' @ [CHR 0x0A])]
                       else [])"
  using assms by (simp add: respbody_def objectFromJsonURL_def http_Get_def say_def)

theorem respbody_reports_witness:
  "fst (respbody demoLib demoPingURLs ''queue'' demoWorld) = None
   \<and> stdout (snd (respbody demoLib demoPingURLs ''queue'' demoWorld)) =
        [Plain (''      queue'' @ [CHR 0x0A]), Coloured Green (''      Alive'' @ [CHR 0x0A])]
   \<and> fst (respbody demoLib demoPingURLs ''auth'' demoWorld) = None
   \<and> stdout (snd (respbody demoLib demoPingURLs ''auth'' demoWorld)) = []"
  using respbody_reports [of demoWorld demoPingURLs "''queue''" "''alive''" demoLib
      "\<lparr>Alive = True, Uptime = 12.5\<rparr>"]
    respbody_reports [of demoWorld demoPingURLs "''auth''" "''down''" demoLib
      "\<lparr>Alive = False, Uptime = 0\<rparr>"]
  by (simp add: demoWorld_def demoLib_def demoPingURLs_def manifestURL_def)

section \<open>Fetching and the world\<close>

lemma objectFromJsonURL_world:
  "snd (objectFromJsonURL decode u w) = w\<lparr>requests := requests w @ [u]\<rparr>"
  by (simp add: objectFromJsonURL_def http_Get_def split: http_reply.splits option.splits)

lemma objectFromJsonURL_server:
  "server w = server w0 \<Longrightarrow> fst (objectFromJsonURL decode u w) = fst (objectFromJsonURL decode u w0)"
  by (simp add: objectFromJsonURL_def http_Get_def split: http_reply.splits option.splits)

lemma objectFromJsonURL_fails:
  "(\<exists>e. fst (objectFromJsonURL decode u w) = Inl e) = fetchFails decode u w"
  by (auto simp: objectFromJsonURL_def http_Get_def fetchFails_def
           split: http_reply.splits option.splits)

lemma objectFromJsonURL_ok:
  "server w u = Reply 200 body \<Longrightarrow> decode body = Some x \<Longrightarrow>
   fst (objectFromJsonURL decode u w) = Inr x"
  by (simp add: objectFromJsonURL_def http_Get_def)

lemma cut_char:
  "cut [c] s = (if c \<in> set s then Some (takeWhile (\<lambda>x. x \<noteq> c) s, tl (dropWhile (\<lambda>x. x \<noteq> c) s))
                else None)"
  by (induction s) auto

lemma SplitN_first: "SplitN s [c] 2 ! 0 = takeWhile (\<lambda>x. x \<noteq> c) s"
proof (cases "c \<in> set s")
  case True
  then show ?thesis by (simp add: numeral_2_eq_2 cut_char)
next
  case False
  then have t: "takeWhile (\<lambda>x. x \<noteq> c) s = s" by auto
  from False have "SplitN s [c] 2 ! 0 = s" by (simp add: numeral_2_eq_2 cut_char)
  with t show ?thesis by (simp only:)
qed

lemma SplitN_nonempty: "SplitN s sep 2 \<noteq> []"
  by (simp add: numeral_2_eq_2 split: option.splits)

lemma scrapeLoop_frame:
  "scrapeLoop L allAPIs m w = (r, w') \<Longrightarrow>
     server w' = server w \<and> fsys w' = fsys w \<and> clock w' = clock w \<and> stdout w' = stdout w"
proof (induction allAPIs arbitrary: m w)
  case Nil
  then show ?case by simp
next
  case (Cons a rest)
  obtain name apiURL where a: "a = (name, apiURL)" by (cases a)
  obtain x w1 where o: "objectFromJsonURL (decodeAPI L) apiURL w = (x, w1)"
    by (cases "objectFromJsonURL (decodeAPI L) apiURL w")
  have w1: "w1 = w\<lparr>requests := requests w @ [apiURL]\<rparr>"
    using objectFromJsonURL_world [of "decodeAPI L" apiURL w] o by simp
  show ?case
  proof (cases x)
    case (Inl e)
    with Cons.prems a o w1 show ?thesis by auto
  next
    case (Inr reference)
    obtain m' e' where s: "scanEntries L reference (API.Entries reference) m = (m', e')"
      by (cases "scanEntries L reference (API.Entries reference) m")
    show ?thesis
    proof (cases e')
      case None
      with Cons.prems a o Inr s have "scrapeLoop L rest m' w1 = (r, w')" by simp
      from Cons.IH [OF this] w1 show ?thesis by simp
    next
      case (Some e)
      with Cons.prems a o Inr s w1 show ?thesis by auto
    qed
  qed
qed

lemma scrapeLoop_fails:
  "(name, apiURL) \<in> set allAPIs \<Longrightarrow> fst (objectFromJsonURL (decodeAPI L) apiURL w0) = Inl e \<Longrightarrow>
   server w = server w0 \<Longrightarrow> \<exists>e'. snd (fst (scrapeLoop L allAPIs m w)) = Some e'"
proof (induction allAPIs arbitrary: m w)
  case Nil
  then show ?case by simp
next
  case (Cons a rest)
  obtain n u where a: "a = (n, u)" by (cases a)
  obtain x w1 where o: "objectFromJsonURL (decodeAPI L) u w = (x, w1)"
    by (cases "objectFromJsonURL (decodeAPI L) u w")
  have w1: "server w1 = server w0"
    using objectFromJsonURL_world [of "decodeAPI L" u w] o Cons.prems(3) by simp
  show ?case
  proof (cases x)
    case (Inl e1)
    with a o show ?thesis by simp
  next
    case (Inr reference)
    have ne: "(name, apiURL) \<in> set rest"
    proof (rule ccontr)
      assume "(name, apiURL) \<notin> set rest"
      with Cons.prems(1) a have "u = apiURL" by simp
      with objectFromJsonURL_server [OF Cons.prems(3), of "decodeAPI L" u] Cons.prems(2) o Inr
      show False by simp
    qed
    obtain m' e' where s: "scanEntries L reference (API.Entries reference) m = (m', e')"
      by (cases "scanEntries L reference (API.Entries reference) m")
    show ?thesis
    proof (cases e')
      case None
      from Cons.IH [OF ne Cons.prems(2) w1, of m'] a o Inr s None show ?thesis by simp
    next
      case (Some e2)
      with a o Inr s show ?thesis by simp
    qed
  qed
qed

lemma refresh_aborts:
  assumes "(\<exists>e. fst (objectFromJsonURL (decodeManifest L) manifestURL' w) = Inl e)
         \<or> (\<exists>allAPIs name apiURL e.
               fst (objectFromJsonURL (decodeManifest L) manifestURL' w) = Inr allAPIs
             \<and> (name, apiURL) \<in> set allAPIs
             \<and> fst (objectFromJsonURL (decodeAPI L) apiURL w) = Inl e)"
  shows "\<exists>pingURLs err w'.
           RefreshCache L cacheFile manifestURL' path' w = (Returned (pingURLs, Some err), w')
         \<and> fsys w' = fsys w"
proof -
  let ?w0 = "say (Coloured Yellow (''Scraping ping URLs from '' @ manifestURL' @ [CHR 0x0A])) w"
  have s0: "server ?w0 = server w" by (simp add: say_def)
  obtain x w1 where o: "objectFromJsonURL (decodeManifest L) manifestURL' ?w0 = (x, w1)"
    by (cases "objectFromJsonURL (decodeManifest L) manifestURL' ?w0")
  have x: "x = fst (objectFromJsonURL (decodeManifest L) manifestURL' w)"
    using objectFromJsonURL_server [OF s0, of "decodeManifest L" manifestURL'] o by simp
  have w1: "server w1 = server w" "fsys w1 = fsys w"
    using objectFromJsonURL_world [of "decodeManifest L" manifestURL' ?w0] o
    by (simp_all add: say_def)
  obtain m eo w2 where sc: "ScrapePingURLs L manifestURL' w = ((m, eo), w2)"
    by (cases "ScrapePingURLs L manifestURL' w") auto
  have "(\<exists>err. eo = Some err) \<and> fsys w2 = fsys w"
  proof (cases x)
    case (Inl e)
    with sc o w1 show ?thesis by (auto simp: ScrapePingURLs_def Let_def)
  next
    case (Inr allAPIs)
    with assms x obtain name apiURL e where
      mem: "(name, apiURL) \<in> set allAPIs" and
      f: "fst (objectFromJsonURL (decodeAPI L) apiURL w) = Inl e"
      by auto
    have loop: "scrapeLoop L allAPIs Map.empty w1 = ((m, eo), w2)"
      using sc o Inr by (simp add: ScrapePingURLs_def Let_def)
    from scrapeLoop_fails [OF mem f w1(1), of Map.empty] loop have "\<exists>err. eo = Some err" by simp
    moreover from scrapeLoop_frame [OF loop] w1 have "fsys w2 = fsys w" by simp
    ultimately show ?thesis by simp
  qed
  with sc show ?thesis by (auto simp: RefreshCache_def)
qed

text \<open>
  C6. When the fetch of the manifest fails, or the manifest is fetched and the fetch
  of one of its reference documents fails (no answer, a status other than 200, or a
  body that does not decode), \<open>RefreshCache\<close> returns an error to its caller and
  leaves the file system as it was: \<open>Cache\<close> is not reached.
\<close>

theorem failed_fetch_aborts_refresh:
  assumes "fetchFails (decodeManifest L) manifestURL' w
         \<or> (\<exists>body allAPIs name apiURL.
               server w manifestURL' = Reply 200 body
             \<and> decodeManifest L body = Some allAPIs
             \<and> (name, apiURL) \<in> set allAPIs
             \<and> fetchFails (decodeAPI L) apiURL w)"
  shows "\<exists>pingURLs err w'.
           RefreshCache L cacheFile manifestURL' path' w = (Returned (pingURLs, Some err), w')
         \<and> fsys w' = fsys w"
proof (rule refresh_aborts)
  from assms
  show "(\<exists>e. fst (objectFromJsonURL (decodeManifest L) manifestURL' w) = Inl e)
         \<or> (\<exists>allAPIs name apiURL e.
               fst (objectFromJsonURL (decodeManifest L) manifestURL' w) = Inr allAPIs
             \<and> (name, apiURL) \<in> set allAPIs
             \<and> fst (objectFromJsonURL (decodeAPI L) apiURL w) = Inl e)"
  proof
    assume "fetchFails (decodeManifest L) manifestURL' w"
    then show ?thesis by (simp add: objectFromJsonURL_fails)
  next
    assume "\<exists>body allAPIs name apiURL.
               server w manifestURL' = Reply 200 body
             \<and> decodeManifest L body = Some allAPIs
             \<and> (name, apiURL) \<in> set allAPIs
             \<and> fetchFails (decodeAPI L) apiURL w"
    then obtain body allAPIs name apiURL where
      b: "server w manifestURL' = Reply 200 body" "decodeManifest L body = Some allAPIs"
         "(name, apiURL) \<in> set allAPIs" and f: "fetchFails (decodeAPI L) apiURL w"
      by blast
    from f obtain e where "fst (objectFromJsonURL (decodeAPI L) apiURL w) = Inl e"
      using objectFromJsonURL_fails [of "decodeAPI L" apiURL w] by blast
    moreover have "fst (objectFromJsonURL (decodeManifest L) manifestURL' w) = Inr allAPIs"
      using b(1) b(2) by (rule objectFromJsonURL_ok)
    ultimately show ?thesis using b(3) by blast
  qed
qed

theorem failed_fetch_aborts_refresh_witness:
  "\<exists>pingURLs err w'.
      RefreshCache demoLib demoCacheFile manifestURL demoCacheFile
        (demoWorld\<lparr>server := (\<lambda>u. if u = manifestURL then Reply 200 ''manifest'' else Reply 503 [])\<rparr>)
        = (Returned (pingURLs, Some err), w')
    \<and> fsys w' = Map.empty"
  using failed_fetch_aborts_refresh [of demoLib manifestURL
      "demoWorld\<lparr>server := (\<lambda>u. if u = manifestURL then Reply 200 ''manifest'' else Reply 503 [])\<rparr>"
      demoCacheFile demoCacheFile]
  by (simp add: fetchFails_def demoLib_def demoWorld_def manifestURL_def)

section \<open>When the cache is read and when it is refreshed\<close>

lemma ReadCachedURLsFile_world:
  "snd (ReadCachedURLsFile L p w) = say (Coloured Blue (''Reading cache file '' @ path_text p @ [CHR 0x0A])) w"
  by (simp add: ReadCachedURLsFile_def Let_def split: sum.splits)

lemma Expired_say: "Expired c d (say x w) = Expired c d w"
  by (simp add: Expired_def Since_def say_def)

text \<open>
  C7, as the code has it. When the cache file exists and reading or parsing it fails,
  \<open>NewPingURLs\<close> returns that error with no ping URLs; it requests no URL and
  writes no file. A cache file that is read and has not expired is answered from the
  file alone. So when \<open>NewPingURLs\<close> has requested a URL or changed the file
  system, the cache file did not exist or its record had expired, and in these two
  cases its result is that of \<open>RefreshCache\<close>.
\<close>

theorem NewPingURLs_refreshes_when_missing_or_expired:
  "(\<not> IsNotExist (Stat cacheFile (fsys w)) \<and> snd (fst (ReadCachedURLsFile L cacheFile w)) = Some err \<longrightarrow>
      NewPingURLs L cacheFile w =
        (Returned (Map.empty, Some err),
         say (Coloured Blue (''Reading cache file '' @ path_text cacheFile @ [CHR 0x0A])) w)
    \<and> requests (snd (NewPingURLs L cacheFile w)) = requests w
    \<and> fsys (snd (NewPingURLs L cacheFile w)) = fsys w)
   \<and> (\<not> IsNotExist (Stat cacheFile (fsys w)) \<and> fst (ReadCachedURLsFile L cacheFile w) = (Some c, None)
        \<and> \<not> Expired c (Hour * 24) w \<longrightarrow>
      NewPingURLs L cacheFile w =
        (Returned (PingURLs c, None),
         say (Coloured Blue (''Reading cache file '' @ path_text cacheFile @ [CHR 0x0A])) w)
    \<and> requests (snd (NewPingURLs L cacheFile w)) = requests w
    \<and> fsys (snd (NewPingURLs L cacheFile w)) = fsys w)
   \<and> (requests (snd (NewPingURLs L cacheFile w)) \<noteq> requests w
        \<or> fsys (snd (NewPingURLs L cacheFile w)) \<noteq> fsys w \<longrightarrow>
      IsNotExist (Stat cacheFile (fsys w))
    \<or> (\<exists>c'. fst (ReadCachedURLsFile L cacheFile w) = (Some c', None) \<and> Expired c' (Hour * 24) w))
   \<and> (IsNotExist (Stat cacheFile (fsys w)) \<longrightarrow>
      NewPingURLs L cacheFile w = RefreshCache L cacheFile manifestURL cacheFile w)
   \<and> (\<not> IsNotExist (Stat cacheFile (fsys w)) \<and> fst (ReadCachedURLsFile L cacheFile w) = (Some c, None)
        \<and> Expired c (Hour * 24) w \<longrightarrow>
      NewPingURLs L cacheFile w =
        RefreshCache L cacheFile manifestURL cacheFile
          (say (Coloured Blue (''Reading cache file '' @ path_text cacheFile @ [CHR 0x0A])) w))"
proof -
  define W where "W = say (Coloured Blue (''Reading cache file '' @ path_text cacheFile @ [CHR 0x0A])) w"
  obtain x e where r: "ReadCachedURLsFile L cacheFile w = ((x, e), W)"
    using ReadCachedURLsFile_world [of L cacheFile w] unfolding W_def
    by (cases "ReadCachedURLsFile L cacheFile w") auto
  have frame: "requests W = requests w" "fsys W = fsys w" by (simp_all add: W_def say_def)
  have ex: "Expired c0 d W = Expired c0 d w" for c0 d unfolding W_def by (rule Expired_say)
  show ?thesis
  proof (cases "IsNotExist (Stat cacheFile (fsys w))")
    case True
    then show ?thesis by (simp add: NewPingURLs_def)
  next
    case False
    show ?thesis
    proof (cases e)
      case (Some err')
      with False show ?thesis
        unfolding W_def [symmetric] by (simp add: NewPingURLs_def r frame split: option.splits)
    next
      case None
      show ?thesis
      proof (cases x)
        case nil: None
        with False None show ?thesis
          unfolding W_def [symmetric] by (simp add: NewPingURLs_def r frame)
      next
        case (Some c0)
        with False None show ?thesis
          unfolding W_def [symmetric] by (simp add: NewPingURLs_def r frame ex)
      qed
    qed
  qed
qed

theorem NewPingURLs_refreshes_when_missing_or_expired_witness:
  "NewPingURLs demoLib demoCacheFile corruptWorld =
     (Returned (Map.empty, Some ParseError),
      say (Coloured Blue (''Reading cache file '' @ path_text demoCacheFile @ [CHR 0x0A])) corruptWorld)
   \<and> NewPingURLs demoLib demoCacheFile blockedWorld =
     (Returned (Map.empty, Some (PathError ENOTDIR demoCacheFile)),
      say (Coloured Blue (''Reading cache file '' @ path_text demoCacheFile @ [CHR 0x0A])) blockedWorld)
   \<and> NewPingURLs demoLib demoCacheFile freshWorld =
     (Returned ([''queue'' \<mapsto> ''https://queue.example.com/ping''], None),
      say (Coloured Blue (''Reading cache file '' @ path_text demoCacheFile @ [CHR 0x0A])) freshWorld)
   \<and> NewPingURLs demoLib demoCacheFile staleWorld =
     RefreshCache demoLib demoCacheFile manifestURL demoCacheFile
       (say (Coloured Blue (''Reading cache file '' @ path_text demoCacheFile @ [CHR 0x0A])) staleWorld)
   \<and> NewPingURLs demoLib demoCacheFile demoWorld =
     RefreshCache demoLib demoCacheFile manifestURL demoCacheFile demoWorld"
proof -
  let ?c = "\<lparr>LastUpdated = 0, PingURLs = [''queue'' \<mapsto> ''https://queue.example.com/ping'']\<rparr>"
  have 1: "NewPingURLs demoLib demoCacheFile corruptWorld =
     (Returned (Map.empty, Some ParseError),
      say (Coloured Blue (''Reading cache file '' @ path_text demoCacheFile @ [CHR 0x0A])) corruptWorld)"
    using NewPingURLs_refreshes_when_missing_or_expired [of demoCacheFile corruptWorld demoLib ParseError ?c]
    by (simp add: IsNotExist_def Stat_def lookup_def ReadCachedURLsFile_def ReadFile_def Let_def say_def
          corruptWorld_def homeWorld_def demoWorld_def demoLib_def demoCacheFile_def CacheFilePath_def)
  have 2: "NewPingURLs demoLib demoCacheFile blockedWorld =
     (Returned (Map.empty, Some (PathError ENOTDIR demoCacheFile)),
      say (Coloured Blue (''Reading cache file '' @ path_text demoCacheFile @ [CHR 0x0A])) blockedWorld)"
    using NewPingURLs_refreshes_when_missing_or_expired [of demoCacheFile blockedWorld demoLib
        "PathError ENOTDIR demoCacheFile" ?c]
    by (simp add: IsNotExist_def Stat_def lookup_def ReadCachedURLsFile_def ReadFile_def Let_def say_def
          blockedWorld_def demoWorld_def demoLib_def demoCacheFile_def CacheFilePath_def)
  have 3: "NewPingURLs demoLib demoCacheFile freshWorld =
     (Returned ([''queue'' \<mapsto> ''https://queue.example.com/ping''], None),
      say (Coloured Blue (''Reading cache file '' @ path_text demoCacheFile @ [CHR 0x0A])) freshWorld)"
    using NewPingURLs_refreshes_when_missing_or_expired [of demoCacheFile freshWorld demoLib ParseError ?c]
    by (simp add: IsNotExist_def Stat_def lookup_def ReadCachedURLsFile_def ReadFile_def Let_def say_def
          freshWorld_def homeWorld_def demoWorld_def demoLib_def demoCacheFile_def CacheFilePath_def
          Expired_def Since_def Sub_def Hour_def Second_def maxDuration_def minDuration_def)
  have 4: "NewPingURLs demoLib demoCacheFile staleWorld =
     RefreshCache demoLib demoCacheFile manifestURL demoCacheFile
       (say (Coloured Blue (''Reading cache file '' @ path_text demoCacheFile @ [CHR 0x0A])) staleWorld)"
    using NewPingURLs_refreshes_when_missing_or_expired [of demoCacheFile staleWorld demoLib ParseError ?c]
    by (simp add: IsNotExist_def Stat_def lookup_def ReadCachedURLsFile_def ReadFile_def Let_def say_def
          staleWorld_def freshWorld_def homeWorld_def demoWorld_def demoLib_def demoCacheFile_def
          CacheFilePath_def Expired_def Since_def Sub_def Hour_def Second_def maxDuration_def
          minDuration_def)
  have 5: "NewPingURLs demoLib demoCacheFile demoWorld =
     RefreshCache demoLib demoCacheFile manifestURL demoCacheFile demoWorld"
    using NewPingURLs_refreshes_when_missing_or_expired [of demoCacheFile demoWorld demoLib ParseError ?c]
    by (simp add: IsNotExist_def Stat_def lookup_def demoWorld_def demoCacheFile_def CacheFilePath_def)
  from 1 2 3 4 5 show ?thesis by (simp only: simp_thms)
qed

text \<open>
  C7, as the claim has it, fails: with a cache file that does not parse and servers
  that answer, \<open>NewPingURLs\<close> returns the parse error and requests nothing, where a
  refresh would have returned the ping URL of the queue.
\<close>

theorem corrupt_cache_counterexample:
  "Stat demoCacheFile (fsys corruptWorld) = Inr (File ''garbage'')
   \<and> unmarshal demoLib ''garbage'' = Inl ParseError
   \<and> fst (NewPingURLs demoLib demoCacheFile corruptWorld) = Returned (Map.empty, Some ParseError)
   \<and> requests (snd (NewPingURLs demoLib demoCacheFile corruptWorld)) = []
   \<and> fst (RefreshCache demoLib demoCacheFile manifestURL demoCacheFile corruptWorld)
       = Returned ([''queue'' \<mapsto> ''https://queue.example.com/ping''], None)"
  apply (simp add: NewPingURLs_def IsNotExist_def Stat_def lookup_def ReadCachedURLsFile_def
      ReadFile_def Let_def say_def corruptWorld_def homeWorld_def demoWorld_def demoLib_def
      demoCacheFile_def CacheFilePath_def)
  apply (simp add: RefreshCache_def ScrapePingURLs_def objectFromJsonURL_def http_Get_def say_def
      Let_def Cache_def Dir_def lookup_def WriteFile_def Stat_def manifestURL_def SplitN_first
      MkdirAll.simps)
  done

section \<open>Writing the cache\<close>

lemma walk_Inr:
  "walk fs here rest = Inr n \<longleftrightarrow>
     lookup fs (here @ rest) = Some n
   \<and> (\<forall>i<length rest. lookup fs (here @ take i rest) = Some Directory)"
proof (induction rest arbitrary: here)
  case Nil
  show ?case by (auto split: option.splits)
next
  case (Cons e rest)
  have "walk fs here (e # rest) = Inr n \<longleftrightarrow>
          lookup fs here = Some Directory \<and> walk fs (here @ [e]) rest = Inr n"
    by (auto split: option.splits node.splits)
  also have "\<dots> \<longleftrightarrow> lookup fs here = Some Directory
        \<and> lookup fs (here @ e # rest) = Some n
        \<and> (\<forall>i<length rest. lookup fs (here @ e # take i rest) = Some Directory)"
    by (simp add: Cons.IH)
  also have "\<dots> \<longleftrightarrow> lookup fs (here @ e # rest) = Some n
        \<and> (\<forall>i<length (e # rest). lookup fs (here @ take i (e # rest)) = Some Directory)"
    by (auto simp: less_Suc_eq_0_disj)
  finally show ?case .
qed

lemma Stat_Inr:
  "Stat p fs = Inr n \<longleftrightarrow>
     lookup fs p = Some n \<and> (\<forall>i<length p. lookup fs (take i p) = Some Directory)"
  by (simp add: Stat_def walk_Inr)

lemma Stat_lookup: "Stat p fs = Inr n \<Longrightarrow> lookup fs p = Some n"
  by (simp add: Stat_Inr)

lemma Stat_parent:
  assumes "Stat (Dir p) fs = Inr Directory"
  shows "\<forall>i<length p. lookup fs (take i p) = Some Directory"
proof (intro allI impI)
  fix i
  assume i: "i < length p"
  from assms have l: "lookup fs (butlast p) = Some Directory"
    and a: "\<forall>j<length (butlast p). lookup fs (take j (butlast p)) = Some Directory"
    by (simp_all add: Stat_Inr Dir_def)
  show "lookup fs (take i p) = Some Directory"
  proof (cases "i < length p - 1")
    case True
    with a have "lookup fs (take i (butlast p)) = Some Directory" by simp
    with True show ?thesis by (simp add: take_butlast)
  next
    case False
    with i have "i = length p - 1" by simp
    with l show ?thesis by (simp add: butlast_conv_take)
  qed
qed

lemma lookup_upd: "q \<noteq> p \<Longrightarrow> lookup (fs(p \<mapsto> n)) q = lookup fs q"
  by (simp add: lookup_def)

lemma Stat_upd:
  assumes "p \<noteq> []" and "\<forall>i<length p. lookup fs (take i p) = Some Directory"
  shows "Stat p (fs(p \<mapsto> n)) = Inr n"
proof -
  have "take i p \<noteq> p" if "i < length p" for i
    using that by (metis length_take min.absorb4 nat_neq_iff)
  with assms show ?thesis by (simp add: Stat_Inr lookup_upd) (simp add: lookup_def)
qed

lemma WriteFile_success:
  assumes "WriteFile p bytes fs = Inr fs'"
  shows "p \<noteq> [] \<and> fs' = fs(p \<mapsto> File bytes) \<and> lookup fs p \<noteq> Some Directory
       \<and> Stat p fs' = Inr (File bytes)"
proof (cases "Stat p fs")
  case (Inr n)
  with assms obtain old where n: "n = File old" and f: "fs' = fs(p \<mapsto> File bytes)"
    by (cases n) (auto simp: WriteFile_def)
  from Inr n have p: "p \<noteq> []" by (auto simp: Stat_root)
  from Inr have "\<forall>i<length p. lookup fs (take i p) = Some Directory" by (simp add: Stat_Inr)
  from Stat_upd [OF p this] f Inr n p show ?thesis by (auto dest: Stat_lookup)
next
  case (Inl e)
  with assms have d: "Stat (Dir p) fs = Inr Directory" and f: "fs' = fs(p \<mapsto> File bytes)"
    by (auto simp: WriteFile_def split: errno.splits sum.splits node.splits)
  from Inl have p: "p \<noteq> []" by (auto simp: Stat_root)
  note r = Stat_parent [OF d]
  have "lookup fs p = None"
  proof (cases "lookup fs p")
    case (Some n)
    with r have "Stat p fs = Inr n" by (simp add: Stat_Inr)
    with Inl show ?thesis by simp
  qed simp
  with Stat_upd [OF p r] f p show ?thesis by simp
qed

lemma Mkdir_success:
  assumes "Mkdir p fs = Inr fs'"
  shows "p \<noteq> [] \<and> fs' = fs(p \<mapsto> Directory) \<and> lookup fs p = None"
proof -
  from assms obtain e where e: "Stat p fs = Inl e" and d: "Stat (Dir p) fs = Inr Directory"
    and f: "fs' = fs(p \<mapsto> Directory)"
    by (auto simp: Mkdir_def split: sum.splits node.splits)
  from e have p: "p \<noteq> []" by (auto simp: Stat_root)
  note r = Stat_parent [OF d]
  have "lookup fs p = None"
  proof (cases "lookup fs p")
    case (Some n)
    with r have "Stat p fs = Inr n" by (simp add: Stat_Inr)
    with e show ?thesis by simp
  qed simp
  with p f show ?thesis by simp
qed

lemma MkdirAll_made: "MkdirAll p fs = Inr fs' \<Longrightarrow> lookup fs' p = Some Directory"
  by (subst (asm) MkdirAll.simps)
     (auto simp: lookup_def dest: Stat_lookup Mkdir_success
           split: sum.splits node.splits if_splits)

lemma MkdirAll_changes:
  "MkdirAll p fs = Inr fs' \<Longrightarrow> fs' q \<noteq> fs q \<Longrightarrow>
   fs' q = Some Directory \<and> prefix q p \<and> fs q = None \<and> q \<noteq> []"
proof (induction p fs arbitrary: fs' rule: MkdirAll.induct)
  case (1 p fs)
  show ?case
  proof (cases "Stat p fs")
    case (Inr n)
    with "1.prems" show ?thesis
      by (subst (asm) MkdirAll.simps) (auto split: node.splits)
  next
    case (Inl e)
    with "1.prems"(1) obtain fs1 where m: "MkdirAll (Dir p) fs = Inr fs1"
      and k: "Mkdir p fs1 = Inr fs' \<or> fs' = fs1"
      by (subst (asm) MkdirAll.simps) (auto split: sum.splits if_splits)
    have up: "prefix (Dir p) p" by (simp add: Dir_def prefixeq_butlast)
    have old: "fs1 q \<noteq> fs q \<Longrightarrow>
        fs1 q = Some Directory \<and> prefix q p \<and> fs q = None \<and> q \<noteq> []"
      using "1.IH" [OF Inl m] up by (auto intro: prefix_order.trans)
    from k show ?thesis
    proof
      assume "fs' = fs1"
      with "1.prems"(2) old show ?thesis by simp
    next
      assume "Mkdir p fs1 = Inr fs'"
      from Mkdir_success [OF this] have p: "p \<noteq> []" and f: "fs' = fs1(p \<mapsto> Directory)"
        and n: "fs1 p = None"
        by (auto simp: lookup_def)
      show ?thesis
      proof (cases "q = p")
        case True
        have "fs p = None"
        proof (rule ccontr)
          assume "fs p \<noteq> None"
          with n True have "fs1 q \<noteq> fs q" by auto
          from old [OF this] True \<open>fs p \<noteq> None\<close> show False by simp
        qed
        with True f p show ?thesis by simp
      next
        case False
        with f "1.prems"(2) have "fs1 q \<noteq> fs q" by simp
        with old f False show ?thesis by simp
      qed
    qed
  qed
qed

lemma Dir_shorter: "\<not> (prefix p (Dir p) \<and> p \<noteq> [])"
proof
  assume a: "prefix p (Dir p) \<and> p \<noteq> []"
  then have "length p \<le> length (Dir p)" by (auto dest: prefix_length_le)
  with a show False by (cases p) (auto simp: Dir_def split: if_splits)
qed

lemma Cache_success:
  assumes "Cache L cacheFile E p w = ((r, None), w')"
  shows "\<exists>fs1 bytes.
            MkdirAll (Dir p) (fsys w) = Inr fs1
          \<and> marshalIndent L \<lparr>LastUpdated = clock w, PingURLs = E\<rparr> = Some bytes
          \<and> WriteFile cacheFile bytes fs1 = Inr (fsys w')
          \<and> r = Some \<lparr>LastUpdated = clock w, PingURLs = E\<rparr>"
  using assms
  by (auto simp: Cache_def Let_def say_def split: sum.splits option.splits)

text \<open>
  C10. Whatever path \<open>p\<close> is passed to \<open>Cache\<close>: away from \<open>cacheFile\<close> the only
  change to the file system is that missing directories on the way to the parent of
  \<open>p\<close> appear, so no regular file is created or changed there; when \<open>p\<close> is not
  \<open>cacheFile\<close>, what is at \<open>p\<close> stays as it was; and when \<open>Cache\<close> returns no
  error, the parent of \<open>p\<close> is a directory and \<open>cacheFile\<close> holds the serialized
  record.
\<close>

theorem Cache_writes_cacheFile:
  assumes "Cache L cacheFile E p w = ((r, err), w')"
  shows "(\<forall>q. q \<noteq> cacheFile \<longrightarrow> fsys w' q \<noteq> fsys w q \<longrightarrow>
            fsys w q = None \<and> fsys w' q = Some Directory \<and> prefix q (Dir p))
       \<and> (p \<noteq> cacheFile \<longrightarrow> fsys w' p = fsys w p)
       \<and> (err = None \<longrightarrow>
            lookup (fsys w') (Dir p) = Some Directory
          \<and> (\<exists>bytes. marshalIndent L \<lparr>LastUpdated = clock w, PingURLs = E\<rparr> = Some bytes
                    \<and> fsys w' cacheFile = Some (File bytes)))"
proof -
  let ?w0 = "say (Coloured Magenta (''Writing cache file '' @ path_text p @ [CHR 0x0A])) w"
  have w0: "fsys ?w0 = fsys w" "clock ?w0 = clock w" by (simp_all add: say_def)
  let ?c = "\<lparr>LastUpdated = clock w, PingURLs = E\<rparr>"
  show ?thesis
  proof (cases "MkdirAll (Dir p) (fsys w)")
    case (Inl e)
    with assms w0 show ?thesis by (auto simp: Cache_def Let_def)
  next
    case (Inr fs1)
    note ch = MkdirAll_changes [OF Inr]
    have ch_p: "fs1 p = fsys w p"
    proof (rule ccontr)
      assume "fs1 p \<noteq> fsys w p"
      from ch [OF this] Dir_shorter [of p] show False by auto
    qed
    show ?thesis
    proof (cases "marshalIndent L ?c")
      case None
      with assms Inr w0 have "fsys w' = fs1" "err \<noteq> None"
        by (auto simp: Cache_def Let_def)
      with ch ch_p show ?thesis by auto
    next
      case (Some bytes)
      show ?thesis
      proof (cases "WriteFile cacheFile bytes fs1")
        case (Inl e)
        with assms \<open>MkdirAll (Dir p) (fsys w) = Inr fs1\<close> Some w0 have "fsys w' = fs1" "err \<noteq> None"
          by (auto simp: Cache_def Let_def)
        with ch ch_p show ?thesis by auto
      next
        case (Inr fs2)
        from WriteFile_success [OF this]
        have fs2: "fs2 = fs1(cacheFile \<mapsto> File bytes)" and d: "cacheFile \<noteq> []"
          and nd: "lookup fs1 cacheFile \<noteq> Some Directory"
          by simp_all
        from assms \<open>MkdirAll (Dir p) (fsys w) = Inr fs1\<close> Some Inr w0 have w': "fsys w' = fs2"
          by (auto simp: Cache_def Let_def)
        have "lookup fs1 (Dir p) = Some Directory"
          using MkdirAll_made [OF \<open>MkdirAll (Dir p) (fsys w) = Inr fs1\<close>] .
        moreover from this nd have "Dir p \<noteq> cacheFile" by auto
        ultimately have "lookup fs2 (Dir p) = Some Directory"
          using fs2 by (auto simp: lookup_def)
        with w' fs2 ch ch_p Some show ?thesis by auto
      qed
    qed
  qed
qed

lemma Cache_elsewhere:
  "Cache demoLib demoCacheFile demoPingURLs [''tmp'', ''elsewhere'', ''cache.json''] homeWorld
   = ((Some \<lparr>LastUpdated = 0, PingURLs = demoPingURLs\<rparr>, None), elsewhereWorld)"
  by (simp add: Cache_def Let_def say_def demoCacheFile_def CacheFilePath_def Dir_def MkdirAll.simps
        Mkdir_def Stat_def lookup_def elsewhereWorld_def homeWorld_def demoWorld_def demoLib_def
        WriteFile_def path_text_def)

theorem Cache_writes_cacheFile_witness:
  "Cache demoLib demoCacheFile demoPingURLs [''tmp'', ''elsewhere'', ''cache.json''] homeWorld
     = ((Some \<lparr>LastUpdated = 0, PingURLs = demoPingURLs\<rparr>, None), elsewhereWorld)
   \<and> fsys elsewhereWorld [''tmp'', ''elsewhere'', ''cache.json'']
       = fsys homeWorld [''tmp'', ''elsewhere'', ''cache.json'']
   \<and> lookup (fsys elsewhereWorld) [''tmp'', ''elsewhere''] = Some Directory
   \<and> fsys elsewhereWorld demoCacheFile = Some (File ''cache-bytes'')"
proof -
  note t = Cache_writes_cacheFile [OF Cache_elsewhere]
  have 1: "fsys elsewhereWorld [''tmp'', ''elsewhere'', ''cache.json'']
       = fsys homeWorld [''tmp'', ''elsewhere'', ''cache.json'']"
    using t by (simp add: demoCacheFile_def CacheFilePath_def)
  have 2: "lookup (fsys elsewhereWorld) [''tmp'', ''elsewhere''] = Some Directory"
    using t by (simp add: Dir_def)
  have 3: "fsys elsewhereWorld demoCacheFile = Some (File ''cache-bytes'')"
    using t by (simp add: demoLib_def)
  from 1 2 3 Cache_elsewhere show ?thesis by simp
qed

lemma toValidUTF8_valid: "validUTF8 s \<Longrightarrow> toValidUTF8 s = s"
proof (induction s rule: toValidUTF8.induct)
  case (1 s)
  show ?case
  proof (cases "s = []")
    case True
    then show ?thesis by (simp add: toValidUTF8.simps)
  next
    case False
    with "1.prems" obtain m where m: "runeSize s = Suc m" and v: "validUTF8 (drop (Suc m) s)"
      by (subst (asm) validUTF8.simps) (auto split: nat.splits)
    from "1.IH"(2) [OF False m v] have "toValidUTF8 (drop (Suc m) s) = drop (Suc m) s" .
    with False m show ?thesis by (subst toValidUTF8.simps) simp
  qed
qed

lemma validUTF8_ascii: "\<forall>c\<in>set s. (of_char c :: nat) < 0x80 \<Longrightarrow> validUTF8 s"
proof (induction s)
  case Nil
  show ?case by (simp add: validUTF8.simps)
next
  case (Cons c s)
  then have "runeSize (c # s) = 1" by simp
  with Cons show ?case by (subst validUTF8.simps) simp
qed

lemma decodeMap_fold:
  "fold (\<lambda>(k, v) m. m(k \<mapsto> v)) kvs m0 = m0 ++ map_of (rev kvs)"
  by (induction kvs arbitrary: m0) (auto simp: map_add_upd_left)

lemma map_of_keys:
  "map_of (map (\<lambda>k. (k, f k)) ks) = (\<lambda>k. if k \<in> set ks then Some (f k) else None)"
  by (induction ks) auto

lemma viaJSON_valid:
  assumes "finite (dom E)" and "\<forall>k v. E k = Some v \<longrightarrow> validUTF8 k \<and> validUTF8 v"
  shows "viaJSON E = E"
proof -
  let ?ks = "sorted_list_of_set (dom E)"
  have ks: "set ?ks = dom E" using assms(1) by simp
  have "encodeMap E = map (\<lambda>k. (k, the (E k))) ?ks"
    unfolding encodeMap_def
  proof (rule map_cong [OF refl])
    fix k
    assume "k \<in> set ?ks"
    with ks obtain v where v: "E k = Some v" by auto
    with assms(2) have "toValidUTF8 k = k" "toValidUTF8 v = v"
      by (auto intro: toValidUTF8_valid)
    with v show "(toValidUTF8 k, toValidUTF8 (case E k of None \<Rightarrow> [] | Some v \<Rightarrow> v)) = (k, the (E k))"
      by simp
  qed
  then have "viaJSON E = map_of (map (\<lambda>k. (k, the (E k))) (rev ?ks))"
    by (simp add: viaJSON_def decodeMap_def decodeMap_fold rev_map)
  also have "\<dots> = E"
    using ks by (auto simp: map_of_keys fun_eq_iff domIff)
  finally show ?thesis .
qed


lemma encodingJSON_jsonLib: "encodingJSON jsonLib"
proof -
  let ?E = "[''queue'' \<mapsto> ''https://queue.example.com/ping'']"
  have "viaJSON ?E = ?E"
    by (rule viaJSON_valid) (auto intro!: validUTF8_ascii split: if_splits)
  then show ?thesis
    by (auto simp: encodingJSON_def jsonLib_def demoLib_def split: if_splits)
qed

lemma encodingJSON_ffLib: "encodingJSON ffLib"
proof -
  have "viaJSON ffURLs = [replacementChar \<mapsto> ''x'']"
    by (simp add: ffURLs_def viaJSON_def encodeMap_def decodeMap_def toValidUTF8.simps)
  then show ?thesis
    by (auto simp: encodingJSON_def ffLib_def demoLib_def split: if_splits)
qed

text \<open>
  C2, as the code has it. When \<open>Cache\<close> has saved the ping URLs \<open>E\<close> without an
  error, \<open>ReadCachedURLsFile\<close> on the cache file returns a record whose
  \<open>PingURLs\<close> is \<open>E\<close> as it comes out of the JSON encoding; that is \<open>E\<close> itself
  when every key and value of \<open>E\<close> is valid UTF-8.
\<close>

theorem Cache_then_Read:
  assumes "Cache L cacheFile E p w = ((r, None), w')"
      and "encodingJSON L"
      and "finite (dom E)"
  shows "\<exists>c' w''. ReadCachedURLsFile L cacheFile w' = ((Some c', None), w'')
           \<and> PingURLs c' = viaJSON E
           \<and> ((\<forall>k v. E k = Some v \<longrightarrow> validUTF8 k \<and> validUTF8 v) \<longrightarrow> PingURLs c' = E)"
proof -
  from Cache_success [OF assms(1)] obtain fs1 bytes where
    m: "marshalIndent L \<lparr>LastUpdated = clock w, PingURLs = E\<rparr> = Some bytes" and
    f: "WriteFile cacheFile bytes fs1 = Inr (fsys w')"
    by auto
  from WriteFile_success [OF f] have s: "Stat cacheFile (fsys w') = Inr (File bytes)" by blast
  from assms(2) have "finite (dom (PingURLs \<lparr>LastUpdated = clock w, PingURLs = E\<rparr>)) \<longrightarrow>
      marshalIndent L \<lparr>LastUpdated = clock w, PingURLs = E\<rparr> = Some bytes \<longrightarrow>
      (\<exists>t. unmarshal L bytes = Inr (Some \<lparr>LastUpdated = t,
               PingURLs = viaJSON (PingURLs \<lparr>LastUpdated = clock w, PingURLs = E\<rparr>)\<rparr>))"
    unfolding encodingJSON_def by blast
  with m assms(3) obtain t where
    u: "unmarshal L bytes = Inr (Some \<lparr>LastUpdated = t, PingURLs = viaJSON E\<rparr>)"
    by auto
  have "ReadCachedURLsFile L cacheFile w' =
          ((Some \<lparr>LastUpdated = t, PingURLs = viaJSON E\<rparr>, None),
           say (Coloured Blue (''Reading cache file '' @ path_text cacheFile @ [CHR 0x0A])) w')"
    using s u by (simp add: ReadCachedURLsFile_def Let_def say_def ReadFile_def)
  moreover have "viaJSON E = E" if "\<forall>k v. E k = Some v \<longrightarrow> validUTF8 k \<and> validUTF8 v"
    using assms(3) that by (rule viaJSON_valid)
  ultimately show ?thesis by auto
qed

theorem Cache_then_Read_witness:
  "\<exists>c' w''. ReadCachedURLsFile jsonLib demoCacheFile
       (snd (Cache jsonLib demoCacheFile [''queue'' \<mapsto> ''https://queue.example.com/ping'']
               demoCacheFile demoWorld)) = ((Some c', None), w'')
     \<and> PingURLs c' = [''queue'' \<mapsto> ''https://queue.example.com/ping'']"
proof -
  let ?E = "[''queue'' \<mapsto> ''https://queue.example.com/ping'']"
  have c: "Cache jsonLib demoCacheFile ?E demoCacheFile demoWorld
      = ((Some \<lparr>LastUpdated = 0, PingURLs = ?E\<rparr>, None),
         snd (Cache jsonLib demoCacheFile ?E demoCacheFile demoWorld))"
    by (simp add: Cache_def Let_def say_def demoCacheFile_def CacheFilePath_def Dir_def MkdirAll.simps
          Mkdir_def Stat_def lookup_def demoWorld_def jsonLib_def demoLib_def WriteFile_def)
  have v: "\<forall>k v. ?E k = Some v \<longrightarrow> validUTF8 k \<and> validUTF8 v"
    by (auto intro!: validUTF8_ascii split: if_splits)
  from Cache_then_Read [OF c encodingJSON_jsonLib] v show ?thesis by auto
qed

text \<open>
  C2, as the claim has it, fails for ping URLs with a key that is not valid UTF-8:
  the save succeeds, and the record that is loaded has the key U+FFFD in place of
  the key \<open>0xFF\<close>.
\<close>

theorem invalid_utf8_counterexample:
  "encodingJSON ffLib
   \<and> snd (fst (Cache ffLib demoCacheFile ffURLs demoCacheFile demoWorld)) = None
   \<and> fst (ReadCachedURLsFile ffLib demoCacheFile
             (snd (Cache ffLib demoCacheFile ffURLs demoCacheFile demoWorld)))
       = (Some \<lparr>LastUpdated = 0, PingURLs = [replacementChar \<mapsto> ''x'']\<rparr>, None)
   \<and> ffURLs [CHR 0xFF] = Some ''x''
   \<and> [replacementChar \<mapsto> ''x''] [CHR 0xFF] = None"
proof -
  have "snd (fst (Cache ffLib demoCacheFile ffURLs demoCacheFile demoWorld)) = None
   \<and> fst (ReadCachedURLsFile ffLib demoCacheFile
             (snd (Cache ffLib demoCacheFile ffURLs demoCacheFile demoWorld)))
       = (Some \<lparr>LastUpdated = 0, PingURLs = [replacementChar \<mapsto> ''x'']\<rparr>, None)"
    by (simp add: Cache_def Let_def say_def demoCacheFile_def CacheFilePath_def Dir_def MkdirAll.simps
          Mkdir_def Stat_def lookup_def demoWorld_def ffLib_def demoLib_def WriteFile_def
          ReadCachedURLsFile_def ReadFile_def)
  moreover have "ffURLs [CHR 0xFF] = Some ''x''" "[replacementChar \<mapsto> ''x''] [CHR 0xFF] = None"
    by (simp_all add: ffURLs_def replacementChar_def)
  ultimately show ?thesis using encodingJSON_ffLib by simp
qed

section \<open>Scraping the ping URLs\<close>

lemma scanEntries_find:
  "scanEntries L r es m =
     (case find (\<lambda>e. Name e = ''ping'') es of
        None \<Rightarrow> (m, None)
      | Some e \<Rightarrow>
          (case urlHostname L (BaseURL r) of
             None \<Rightarrow> (m, Some (URLParseError (BaseURL r)))
           | Some h \<Rightarrow> (m(serviceId h \<mapsto> BaseURL r @ Route e), None)))"
  by (induction es) (simp_all add: SplitN_first serviceId_def split: option.splits)

lemma scanEntries_endpoint:
  "firstPing r \<noteq> None \<longrightarrow> urlHostname L (BaseURL r) \<noteq> None \<Longrightarrow>
   scanEntries L r (API.Entries r) m = (m ++ map_of (case endpoint L r of None \<Rightarrow> [] | Some kv \<Rightarrow> [kv]), None)"
  by (auto simp: scanEntries_find endpoint_def firstPing_def split: option.splits)

lemma fetched_ok:
  "fetched L w0 (name, apiURL) r \<Longrightarrow> server w = server w0 \<Longrightarrow>
   objectFromJsonURL (decodeAPI L) apiURL w = (Inr r, w\<lparr>requests := requests w @ [apiURL]\<rparr>)"
  by (auto simp: fetched_def objectFromJsonURL_def http_Get_def split: http_reply.splits)

lemma set_endpoints:
  "(k, v) \<in> set (endpoints L refs) \<longleftrightarrow> (\<exists>r\<in>set refs. endpoint L r = Some (k, v))"
  unfolding endpoints_def by (induction refs) (auto split: option.splits)

lemma endpoint_Some:
  "endpoint L r = Some (k, v) \<longleftrightarrow>
     (\<exists>e h. firstPing r = Some e \<and> urlHostname L (BaseURL r) = Some h
          \<and> k = serviceId h \<and> v = BaseURL r @ Route e)"
  by (auto simp: endpoint_def split: option.splits)

lemma scrapeLoop_ok:
  "list_all2 (fetched L w0) allAPIs refs \<Longrightarrow>
   \<forall>r\<in>set refs. firstPing r \<noteq> None \<longrightarrow> urlHostname L (BaseURL r) \<noteq> None \<Longrightarrow>
   server w = server w0 \<Longrightarrow>
   \<exists>w'. scrapeLoop L allAPIs m w = ((m ++ map_of (rev (endpoints L refs)), None), w')"
proof (induction allAPIs refs arbitrary: m w rule: list_all2_induct)
  case Nil
  then show ?case by (simp add: endpoints_def)
next
  case (Cons a allAPIs r refs)
  obtain name apiURL where a: "a = (name, apiURL)" by (cases a)
  let ?w1 = "w\<lparr>requests := requests w @ [apiURL]\<rparr>"
  let ?one = "case endpoint L r of None \<Rightarrow> [] | Some kv \<Rightarrow> [kv]"
  have f: "objectFromJsonURL (decodeAPI L) apiURL w = (Inr r, ?w1)"
    using Cons.hyps(1) Cons.prems(2) a by (simp add: fetched_ok)
  have s: "scanEntries L r (API.Entries r) m = (m ++ map_of ?one, None)"
    using Cons.prems(1) by (intro scanEntries_endpoint) simp
  have "\<exists>w'. scrapeLoop L allAPIs (m ++ map_of ?one) ?w1
            = (((m ++ map_of ?one) ++ map_of (rev (endpoints L refs)), None), w')"
    using Cons.prems by (intro Cons.IH) simp_all
  moreover have "(m ++ map_of ?one) ++ map_of (rev (endpoints L refs))
      = m ++ map_of (rev (endpoints L (r # refs)))"
    by (simp add: endpoints_def split: option.splits)
  ultimately show ?case using a f s by simp
qed

text \<open>
  C1, as the code has it. When the manifest and every reference document are fetched
  and the base URL of every reference with a ping entry parses, \<open>ScrapePingURLs\<close>
  returns no error and a map in which a later service replaces an earlier one with
  the same identifier. Its keys are the hostname prefixes of the references that
  have an entry named ping; and when no two such references share an identifier, the
  value for each of them is its base URL followed by the route of its first entry
  named ping.
\<close>

theorem ScrapePingURLs_endpoints:
  assumes "server w manifestURL' = Reply 200 body"
      and "decodeManifest L body = Some allAPIs"
      and "list_all2 (fetched L w) allAPIs refs"
      and "\<forall>r\<in>set refs. firstPing r \<noteq> None \<longrightarrow> urlHostname L (BaseURL r) \<noteq> None"
  shows "\<exists>m w'. ScrapePingURLs L manifestURL' w = ((m, None), w')
       \<and> m = map_of (rev (endpoints L refs))
       \<and> dom m = {serviceId h |r h. r \<in> set refs \<and> firstPing r \<noteq> None
                                  \<and> urlHostname L (BaseURL r) = Some h}
       \<and> (distinct (map fst (endpoints L refs)) \<longrightarrow>
            (\<forall>r\<in>set refs. \<forall>e h. firstPing r = Some e \<longrightarrow> urlHostname L (BaseURL r) = Some h \<longrightarrow>
               m (serviceId h) = Some (BaseURL r @ Route e)))"
proof -
  let ?w0 = "say (Coloured Yellow (''Scraping ping URLs from '' @ manifestURL' @ [CHR 0x0A])) w"
  let ?w1 = "?w0\<lparr>requests := requests ?w0 @ [manifestURL']\<rparr>"
  let ?m = "map_of (rev (endpoints L refs))"
  have o: "objectFromJsonURL (decodeManifest L) manifestURL' ?w0 = (Inr allAPIs, ?w1)"
    using assms(1,2) by (simp add: objectFromJsonURL_def http_Get_def say_def)
  have "server ?w1 = server w" by (simp add: say_def)
  from scrapeLoop_ok [OF assms(3) assms(4) this, of Map.empty]
  obtain w' where "scrapeLoop L allAPIs Map.empty ?w1 = ((?m, None), w')" by auto
  with o have sc: "ScrapePingURLs L manifestURL' w = ((?m, None), w')"
    by (simp add: ScrapePingURLs_def Let_def)
  have "dom ?m = fst ` set (endpoints L refs)"
    by (simp add: dom_map_of_conv_image_fst)
  also have "\<dots> = {serviceId h |r h. r \<in> set refs \<and> firstPing r \<noteq> None
                                  \<and> urlHostname L (BaseURL r) = Some h}"
  proof (intro set_eqI iffI)
    fix k
    assume "k \<in> fst ` set (endpoints L refs)"
    then obtain v where "(k, v) \<in> set (endpoints L refs)" by auto
    then obtain r where "r \<in> set refs" "endpoint L r = Some (k, v)"
      by (auto simp: set_endpoints)
    then show "k \<in> {serviceId h |r h. r \<in> set refs \<and> firstPing r \<noteq> None
                                  \<and> urlHostname L (BaseURL r) = Some h}"
      by (auto simp: endpoint_Some)
  next
    fix k
    assume "k \<in> {serviceId h |r h. r \<in> set refs \<and> firstPing r \<noteq> None
                                  \<and> urlHostname L (BaseURL r) = Some h}"
    then obtain r h e where "r \<in> set refs" "firstPing r = Some e"
      "urlHostname L (BaseURL r) = Some h" "k = serviceId h"
      by auto
    then have "(k, BaseURL r @ Route e) \<in> set (endpoints L refs)"
      by (auto simp: set_endpoints endpoint_Some)
    then show "k \<in> fst ` set (endpoints L refs)" by force
  qed
  finally have d: "dom ?m = {serviceId h |r h. r \<in> set refs \<and> firstPing r \<noteq> None
                                  \<and> urlHostname L (BaseURL r) = Some h}" .
  have v: "?m (serviceId h) = Some (BaseURL r @ Route e)"
    if "distinct (map fst (endpoints L refs))" "r \<in> set refs" "firstPing r = Some e"
       "urlHostname L (BaseURL r) = Some h" for r e h
  proof -
    from that have "(serviceId h, BaseURL r @ Route e) \<in> set (endpoints L refs)"
      by (auto simp: set_endpoints endpoint_Some)
    with that(1) show ?thesis by (intro map_of_is_SomeI) (simp_all add: rev_map [symmetric])
  qed
  from sc d v show ?thesis by blast
qed

theorem ScrapePingURLs_endpoints_witness:
  "fst (ScrapePingURLs demoLib manifestURL demoWorld)
     = ([''queue'' \<mapsto> ''https://queue.example.com/ping''], None)"
proof -
  let ?r = "\<lparr>BaseURL = ''https://queue.example.com'',
             API.Entries = [\<lparr>Name = ''ping'', Route = ''/ping''\<rparr>]\<rparr>"
  have 1: "server demoWorld manifestURL = Reply 200 ''manifest''"
    by (simp add: demoWorld_def)
  have 2: "decodeManifest demoLib ''manifest'' = Some [(''queue'', ''https://ref.example/queue'')]"
    by (simp add: demoLib_def)
  have 3: "list_all2 (fetched demoLib demoWorld) [(''queue'', ''https://ref.example/queue'')] [?r]"
    by (simp add: fetched_def demoWorld_def demoLib_def manifestURL_def)
  have 4: "\<forall>r\<in>set [?r]. firstPing r \<noteq> None \<longrightarrow> urlHostname demoLib (BaseURL r) \<noteq> None"
    by (simp add: demoLib_def)
  from ScrapePingURLs_endpoints [OF 1 2 3 4] obtain m w' where
    "ScrapePingURLs demoLib manifestURL demoWorld = ((m, None), w')"
    "m = map_of (rev (endpoints demoLib [?r]))"
    by blast
  moreover have "endpoints demoLib [?r] = [(''queue'', ''https://queue.example.com/ping'')]"
    by (simp add: endpoints_def endpoint_def firstPing_def serviceId_def demoLib_def)
  ultimately show ?thesis by simp
qed

text \<open>
  C1, as the claim has it, fails for two services with the same hostname prefix: both
  have a ping entry, and the value under their identifier is the health URL of the one
  visited last, not that of the other, in whichever order the manifest is visited.
\<close>

theorem shared_identifier_counterexample:
  "fst (objectFromJsonURL (decodeAPI clashLib) ''https://ref.example/queue'' clashWorld)
     = Inr queueReference
   \<and> firstPing queueReference = Some \<lparr>Name = ''ping'', Route = ''/ping''\<rparr>
   \<and> urlHostname clashLib (BaseURL queueReference) = Some ''queue.example.com''
   \<and> snd (fst (ScrapePingURLs clashLib manifestURL clashWorld)) = None
   \<and> fst (fst (ScrapePingURLs clashLib manifestURL clashWorld)) ''queue''
       = Some ''https://queue.events.example.com/v1/ping''
   \<and> fst (fst (ScrapePingURLs clashLib manifestURL clashWorld)) ''queue''
       \<noteq> Some (BaseURL queueReference @ ''/ping'')
   \<and> snd (fst (ScrapePingURLs clashLibRev manifestURL clashWorld)) = None
   \<and> fst (fst (ScrapePingURLs clashLibRev manifestURL clashWorld)) ''queue''
       = Some ''https://queue.example.com/ping''
   \<and> fst (fst (ScrapePingURLs clashLibRev manifestURL clashWorld)) ''queue''
       \<noteq> Some (BaseURL queueEventsReference @ ''/v1/ping'')"
  by (simp add: ScrapePingURLs_def objectFromJsonURL_def http_Get_def say_def Let_def
      clashLib_def clashLibRev_def clashWorld_def demoLib_def demoWorld_def manifestURL_def
      SplitN_first queueReference_def queueEventsReference_def firstPing_def)

section \<open>Schemas are fetched once\<close>

lemma addSchema_scheduled:
  "scheduled c \<Longrightarrow> scheduled (addSchema url c)
     \<and> set (launched (addSchema url c)) = set (launched c) \<union> ({url} - {[]})"
  by (auto simp: scheduled_def addSchema_def)

lemma entries_scheduled:
  "scheduled c \<Longrightarrow>
   scheduled (fold (\<lambda>e c. addSchema (Output e) (addSchema (Input e) c)) es c)
   \<and> set (launched (fold (\<lambda>e c. addSchema (Output e) (addSchema (Input e) c)) es c))
       = set (launched c) \<union> ((\<Union>e\<in>set es. {Input e, Output e}) - {[]})"
proof (induction es arbitrary: c)
  case Nil
  then show ?case by simp
next
  case (Cons e es)
  let ?c1 = "addSchema (Output e) (addSchema (Input e) c)"
  from Cons.prems have 1: "scheduled (addSchema (Input e) c)"
    and s1: "set (launched (addSchema (Input e) c)) = set (launched c) \<union> ({Input e} - {[]})"
    using addSchema_scheduled [of c "Input e"] by simp_all
  from 1 have 2: "scheduled ?c1"
    and s2: "set (launched ?c1) = set (launched (addSchema (Input e) c)) \<union> ({Output e} - {[]})"
    using addSchema_scheduled [of "addSchema (Input e) c" "Output e"] by simp_all
  from Cons.IH [OF 2] s1 s2 show ?case by auto
qed

lemma services_scheduled:
  "scheduled c \<Longrightarrow>
   scheduled (fold (\<lambda>s. fold (\<lambda>e c. addSchema (Output e) (addSchema (Input e) c)) (Service.Entries s)) services c)
   \<and> set (launched (fold (\<lambda>s. fold (\<lambda>e c. addSchema (Output e) (addSchema (Input e) c)) (Service.Entries s)) services c))
       = set (launched c) \<union> (referenced services - {[]})"
proof (induction services arbitrary: c)
  case Nil
  then show ?case by (simp add: referenced_def)
next
  case (Cons s services)
  let ?c1 = "fold (\<lambda>e c. addSchema (Output e) (addSchema (Input e) c)) (Service.Entries s) c"
  from entries_scheduled [OF Cons.prems, of "Service.Entries s"]
  have 1: "scheduled ?c1"
    and s1: "set (launched ?c1) = set (launched c) \<union> ((\<Union>e\<in>set (Service.Entries s). {Input e, Output e}) - {[]})"
    by simp_all
  from Cons.IH [OF 1] s1 show ?case by (auto simp: referenced_def)
qed

lemma count_list_distinct: "distinct xs \<Longrightarrow> count_list xs x = (if x \<in> set xs then 1 else 0)"
  by (induction xs) auto

text \<open>
  C4. The collector launches exactly one fetch for each URL that is an input or an
  output of some entry and is not empty, however many entries name it, and none for
  the empty URL.
\<close>

theorem collectSchemas_fetches_once:
  "count_list (launched (collectSchemas services)) url
     = (if url \<noteq> [] \<and> url \<in> referenced services then 1 else 0)"
proof -
  have "scheduled \<lparr>urls = (\<lambda>u. False), launched = []\<rparr>" by (simp add: scheduled_def)
  from services_scheduled [OF this, of services]
  have "distinct (launched (collectSchemas services))"
    and "set (launched (collectSchemas services)) = referenced services - {[]}"
    by (simp_all add: collectSchemas_def scheduled_def)
  then show ?thesis by (simp add: count_list_distinct)
qed

theorem collectSchemas_fetches_once_witness:
  "launched (collectSchemas demoServices)
     = [''https://schemas.example/task.json'', ''https://schemas.example/status.json'']
   \<and> count_list (launched (collectSchemas demoServices)) ''https://schemas.example/task.json'' = 1
   \<and> count_list (launched (collectSchemas demoServices)) [] = 0"
  using collectSchemas_fetches_once [of demoServices "''https://schemas.example/task.json''"]
    collectSchemas_fetches_once [of demoServices "[]"]
  by (simp add: collectSchemas_def demoServices_def addSchema_def referenced_def)

section \<open>The emitter is deterministic\<close>

lemma fold_all2:
  "list_all2 (\<lambda>x y. \<forall>g. f x g = f' y g) xs ys \<Longrightarrow> fold f xs g = fold f' ys g"
  by (induction xs ys arbitrary: g rule: list_all2_induct) simp_all

lemma sort_unique:
  "distinct xs \<Longrightarrow> distinct ys \<Longrightarrow> set xs = set ys \<Longrightarrow> sort xs = sort (ys :: 'b :: linorder list)"
  by (intro sorted_distinct_set_unique) simp_all

lemma same_keys:
  assumes "\<forall>k. rel_option R (map_of kvs k) (map_of kvs' k)"
  shows "set (map fst kvs) = set (map fst kvs')"
proof -
  have "dom (map_of kvs) = dom (map_of kvs')"
  proof (intro set_eqI)
    fix k
    from assms have "rel_option R (map_of kvs k) (map_of kvs' k)" by simp
    then show "k \<in> dom (map_of kvs) \<longleftrightarrow> k \<in> dom (map_of kvs')"
      by (cases "map_of kvs k"; cases "map_of kvs' k") auto
  qed
  then show ?thesis by (simp add: dom_map_of_conv_image_fst)
qed

lemma PrettyPrint_same:
  "same v w \<Longrightarrow> stringKeyed v \<longrightarrow> (\<forall>g. PrettyPrint fmt quote v g = PrettyPrint fmt quote w g)"
proof (induction rule: same.induct)
  case (same_Other a)
  show ?case by simp
next
  case (same_nil t)
  show ?case by simp
next
  case (same_Slice xs ys t)
  show ?case
  proof (intro impI allI)
    fix g
    assume sk: "stringKeyed (VSlice t (Some xs))"
    from same_Slice
    have "list_all2 (\<lambda>x y. \<forall>g. Print ('','' @ [CHR 0x0A]) (PrettyPrint fmt quote x g)
                               = Print ('','' @ [CHR 0x0A]) (PrettyPrint fmt quote y g)) xs ys"
    proof (rule list.rel_mono_strong)
      fix x y
      assume "x \<in> set xs"
        and "same x y \<and> (stringKeyed x \<longrightarrow> (\<forall>g. PrettyPrint fmt quote x g = PrettyPrint fmt quote y g))"
      with sk show "\<forall>g. Print ('','' @ [CHR 0x0A]) (PrettyPrint fmt quote x g)
                       = Print ('','' @ [CHR 0x0A]) (PrettyPrint fmt quote y g)"
        by simp
    qed
    from fold_all2 [OF this]
    show "PrettyPrint fmt quote (VSlice t (Some xs)) g = PrettyPrint fmt quote (VSlice t (Some ys)) g"
      by simp
  qed
next
  case (same_Array xs ys t)
  show ?case
  proof (intro impI allI)
    fix g
    assume sk: "stringKeyed (VArray t xs)"
    from same_Array
    have "list_all2 (\<lambda>x y. \<forall>g. Print ('','' @ [CHR 0x0A]) (PrettyPrint fmt quote x g)
                               = Print ('','' @ [CHR 0x0A]) (PrettyPrint fmt quote y g)) xs ys"
    proof (rule list.rel_mono_strong)
      fix x y
      assume "x \<in> set xs"
        and "same x y \<and> (stringKeyed x \<longrightarrow> (\<forall>g. PrettyPrint fmt quote x g = PrettyPrint fmt quote y g))"
      with sk show "\<forall>g. Print ('','' @ [CHR 0x0A]) (PrettyPrint fmt quote x g)
                       = Print ('','' @ [CHR 0x0A]) (PrettyPrint fmt quote y g)"
        by simp
    qed
    from fold_all2 [OF this]
    show "PrettyPrint fmt quote (VArray t xs) g = PrettyPrint fmt quote (VArray t ys) g"
      by simp
  qed
next
  case (same_Struct flds flds' t)
  show ?case
  proof (intro impI allI)
    fix g
    assume sk: "stringKeyed (VStruct t flds)"
    let ?f = "\<lambda>(name, x) g. Print ('','' @ [CHR 0x0A]) (PrettyPrint fmt quote x (Print (name @ '': '') g))"
    from same_Struct
    have "list_all2 (\<lambda>a b. \<forall>g. ?f a g = ?f b g) flds flds'"
    proof (rule list.rel_mono_strong)
      fix a b
      assume a: "a \<in> set flds"
        and r: "rel_prod (=) (\<lambda>x y. same x y \<and> (stringKeyed x \<longrightarrow>
                   (\<forall>g. PrettyPrint fmt quote x g = PrettyPrint fmt quote y g))) a b"
      obtain n x where ax: "a = (n, x)" by (cases a)
      obtain n' y where byy: "b = (n', y)" by (cases b)
      from a ax sk have "stringKeyed x" by auto
      with r ax byy show "\<forall>g. ?f a g = ?f b g" by simp
    qed
    from fold_all2 [OF this]
    show "PrettyPrint fmt quote (VStruct t flds) g = PrettyPrint fmt quote (VStruct t flds') g"
      by simp
  qed
next
  case (same_StrMap kvs kvs' t)
  show ?case
  proof (intro impI allI)
    fix g
    assume sk: "stringKeyed (VStrMap t kvs)"
    have keys: "set (map fst kvs) = set (map fst kvs')"
      using same_StrMap(3) by (rule same_keys)
    with same_StrMap(1,2) have srt: "sort (map fst kvs) = sort (map fst kvs')"
      by (rule sort_unique)
    from keys have emp: "kvs = [] \<longleftrightarrow> kvs' = []" by (cases kvs; cases kvs') auto
    let ?step = "\<lambda>kvs k g. case map_of kvs k of
                                None \<Rightarrow> g
                              | Some x \<Rightarrow> Print ('','' @ [CHR 0x0A])
                                            (PrettyPrint fmt quote x (Print (quote k @ '': '') g))"
    have step: "?step kvs k = ?step kvs' k" for k
    proof -
      from same_StrMap(3)
      have r: "rel_option (\<lambda>x y. same x y \<and> (stringKeyed x \<longrightarrow>
                 (\<forall>g. PrettyPrint fmt quote x g = PrettyPrint fmt quote y g)))
               (map_of kvs k) (map_of kvs' k)"
        by (rule spec)
      show ?thesis
      proof (cases "map_of kvs k")
        case None
        with r have "map_of kvs' k = None" by (cases "map_of kvs' k") simp_all
        with None show ?thesis by simp
      next
        case (Some x)
        with r obtain y where y: "map_of kvs' k = Some y"
          and xy: "stringKeyed x \<longrightarrow> (\<forall>g. PrettyPrint fmt quote x g = PrettyPrint fmt quote y g)"
          by (cases "map_of kvs' k") simp_all
        from Some have "(k, x) \<in> set kvs" by (rule map_of_SomeD)
        with sk have "stringKeyed x" by auto
        with xy Some y show ?thesis by simp
      qed
    qed
    have "fold (?step kvs) (sort (map fst kvs)) g0 = fold (?step kvs') (sort (map fst kvs')) g0" for g0
      unfolding srt by (rule fold_cong) (simp_all add: step)
    with emp show "PrettyPrint fmt quote (VStrMap t kvs) g = PrettyPrint fmt quote (VStrMap t kvs') g"
      by (simp add: Let_def)
  qed
next
  case (same_Map kvs kvs' t)
  show ?case by simp
qed

lemma Print_Print: "Print a (Print b g) = Print (b @ a) g"
  by (simp add: Print_def)

lemma fold_Print:
  "(\<And>x g. x \<in> set xs \<Longrightarrow> f x g = Print (h x) g) \<Longrightarrow> fold f xs g = Print (concat (map h xs)) g"
proof (induction xs arbitrary: g)
  case Nil
  show ?case by (simp add: Print_def)
next
  case (Cons x xs)
  have fx: "f x g = Print (h x) g" by (simp add: Cons.prems)
  have "fold f xs (Print (h x) g) = Print (concat (map h xs)) (Print (h x) g)"
    by (rule Cons.IH) (simp add: Cons.prems)
  with fx show ?case by (simp add: Print_Print)
qed

lemma emitted_eq:
  assumes "\<And>g. PrettyPrint fmt quote v g = Print S g"
  shows "emitted fmt quote v = S"
  by (simp add: emitted_def assms Print_def)

lemma elements_Print:
  assumes "\<And>x g. x \<in> set xs \<Longrightarrow> PrettyPrint fmt quote x g = Print (emitted fmt quote x) g"
  shows "Print ''}'' (fold (\<lambda>x g. Print ('','' @ [CHR 0x0A]) (PrettyPrint fmt quote x g)) xs
            (Print (''{'' @ [CHR 0x0A]) (Print t g)))
         = Print (t @ ''{'' @ [CHR 0x0A]
                  @ concat (map (\<lambda>x. emitted fmt quote x @ '','' @ [CHR 0x0A]) xs) @ ''}'') g"
proof -
  have "fold (\<lambda>x g. Print ('','' @ [CHR 0x0A]) (PrettyPrint fmt quote x g)) xs g0
        = Print (concat (map (\<lambda>x. emitted fmt quote x @ '','' @ [CHR 0x0A]) xs)) g0" for g0
    by (rule fold_Print) (simp add: assms Print_Print)
  then show ?thesis by (simp add: Print_Print)
qed

lemma keys_Print:
  assumes "\<And>k x g. map_of kvs k = Some x \<Longrightarrow> PrettyPrint fmt quote x g = Print (emitted fmt quote x) g"
  shows "fold (\<lambda>k g. case map_of kvs k of
                       None \<Rightarrow> g
                     | Some x \<Rightarrow> Print ('','' @ [CHR 0x0A])
                                   (PrettyPrint fmt quote x (Print (q k @ '': '') g))) ks g0
         = Print (concat (map (\<lambda>k. case map_of kvs k of
                                      None \<Rightarrow> []
                                    | Some x \<Rightarrow> q k @ '': '' @ emitted fmt quote x @ '','' @ [CHR 0x0A]) ks)) g0"
  by (rule fold_Print) (simp add: assms Print_Print Print_def split: option.splits)

lemma PrettyPrint_emitted:
  "PrettyPrint fmt quote v g = Print (emitted fmt quote v) g"
proof (induction v arbitrary: g)
  case (VSlice t xo)
  show ?case
  proof (cases xo)
    case None
    have "PrettyPrint fmt quote (VSlice t None) g = Print (t @ ''(nil)'') g" for g
      by (simp add: Print_Print)
    from this [of g] emitted_eq [of fmt quote "VSlice t None", OF this] None show ?thesis by simp
  next
    case (Some xs)
    have "PrettyPrint fmt quote (VSlice t (Some xs)) g
        = Print (t @ ''{'' @ [CHR 0x0A]
                  @ concat (map (\<lambda>x. emitted fmt quote x @ '','' @ [CHR 0x0A]) xs) @ ''}'') g" for g
      unfolding PrettyPrint.simps by (rule elements_Print) (use VSlice Some in simp)
    from this [of g] emitted_eq [of fmt quote "VSlice t (Some xs)", OF this] Some show ?thesis by simp
  qed
next
  case (VArray t xs)
  have "PrettyPrint fmt quote (VArray t xs) g
        = Print (t @ ''{'' @ [CHR 0x0A]
                  @ concat (map (\<lambda>x. emitted fmt quote x @ '','' @ [CHR 0x0A]) xs) @ ''}'') g" for g
    unfolding PrettyPrint.simps by (rule elements_Print) (use VArray in simp)
  from this [of g] emitted_eq [of fmt quote "VArray t xs", OF this] show ?case by simp
next
  case (VStruct t flds)
  have "fold (\<lambda>(name, x) g. Print ('','' @ [CHR 0x0A]) (PrettyPrint fmt quote x (Print (name @ '': '') g))) flds g0
        = Print (concat (map (\<lambda>(name, x). name @ '': '' @ emitted fmt quote x @ '','' @ [CHR 0x0A]) flds)) g0" for g0
  proof (rule fold_Print)
    fix a g
    assume a: "a \<in> set flds"
    obtain n x where ax: "a = (n, x)" by (cases a)
    with a VStruct [of a x] have "PrettyPrint fmt quote x g' = Print (emitted fmt quote x) g'" for g'
      by simp
    with ax show "(case a of (name, x) \<Rightarrow> \<lambda>g. Print ('','' @ [CHR 0x0A]) (PrettyPrint fmt quote x (Print (name @ '': '') g))) g
          = Print (case a of (name, x) \<Rightarrow> name @ '': '' @ emitted fmt quote x @ '','' @ [CHR 0x0A]) g"
      by (simp add: Print_Print)
  qed
  then have "PrettyPrint fmt quote (VStruct t flds) g
        = Print (t @ ''{'' @ [CHR 0x0A]
                  @ concat (map (\<lambda>(name, x). name @ '': '' @ emitted fmt quote x @ '','' @ [CHR 0x0A]) flds)
                  @ ''}'') g" for g
    by (simp add: Print_Print)
  from this [of g] emitted_eq [of fmt quote "VStruct t flds", OF this] show ?case by simp
next
  case (VStrMap t kvs)
  have ih: "PrettyPrint fmt quote x g = Print (emitted fmt quote x) g" if "map_of kvs k = Some x" for k x g
    using VStrMap [of "(k, x)" x] map_of_SomeD [OF that] by simp
  have "PrettyPrint fmt quote (VStrMap t kvs) g
        = Print (t @ ''{'' @ [CHR 0x0A]
                  @ concat (map (\<lambda>k. case map_of kvs k of
                                      None \<Rightarrow> []
                                    | Some x \<Rightarrow> quote k @ '': '' @ emitted fmt quote x @ '','' @ [CHR 0x0A])
                             (sort (map fst kvs)))
                  @ ''}'') g" for g
    by (simp add: Let_def keys_Print [of kvs fmt quote, OF ih] Print_Print)
  from this [of g] emitted_eq [of fmt quote "VStrMap t kvs", OF this] show ?case by simp
next
  case (VMap t kvs)
  have ih: "PrettyPrint fmt quote x g = Print (emitted fmt quote x) g" if "map_of kvs k = Some x" for k x g
    using VMap [of "(k, x)" x] map_of_SomeD [OF that] by simp
  have "PrettyPrint fmt quote (VMap t kvs) g
        = Print (t @ ''{'' @ [CHR 0x0A]
                  @ concat (map (\<lambda>k. case map_of kvs k of
                                      None \<Rightarrow> []
                                    | Some x \<Rightarrow> fmt k @ '': '' @ emitted fmt quote x @ '','' @ [CHR 0x0A])
                             (map fst kvs))
                  @ ''}'') g" for g
    by (simp add: Let_def keys_Print [of kvs fmt quote, OF ih] Print_Print)
  from this [of g] emitted_eq [of fmt quote "VMap t kvs", OF this] show ?case by simp
next
  case (VOther a)
  from emitted_eq [of fmt quote "VOther a" "fmt a"] show ?case by simp
qed

text \<open>
  C5. For services and schemas in which every map has string keys, the text written
  does not depend on the order in which the maps list their entries: two runs on
  the same services and schemas write the same bytes. A map with string keys is
  written as its type, then its entries in the sorted order of their keys.
\<close>

theorem emission_deterministic:
  assumes "same services services'" and "same schemas schemas'"
      and "stringKeyed services" and "stringKeyed schemas"
  shows "emitServices fmt quote servicesVar schemasVar services schemas
           = emitServices fmt quote servicesVar schemasVar services' schemas'
       \<and> emitted fmt quote (VStrMap t kvs)
           = t @ ''{'' @ [CHR 0x0A]
             @ concat (map (\<lambda>k. quote k @ '': '' @ emitted fmt quote (the (map_of kvs k)) @ '','' @ [CHR 0x0A])
                         (sort (map fst kvs)))
             @ ''}''"
proof
  from PrettyPrint_same [OF assms(1), of fmt quote] assms(3)
  have 1: "PrettyPrint fmt quote services g = PrettyPrint fmt quote services' g" for g by simp
  from PrettyPrint_same [OF assms(2), of fmt quote] assms(4)
  have 2: "PrettyPrint fmt quote schemas g = PrettyPrint fmt quote schemas' g" for g by simp
  show "emitServices fmt quote servicesVar schemasVar services schemas
           = emitServices fmt quote servicesVar schemasVar services' schemas'"
    by (simp add: emitServices_def Let_def 1 2)
next
  have "PrettyPrint fmt quote (VStrMap t kvs) g
        = Print (t @ ''{'' @ [CHR 0x0A]
                  @ concat (map (\<lambda>k. case map_of kvs k of
                                      None \<Rightarrow> []
                                    | Some x \<Rightarrow> quote k @ '': '' @ emitted fmt quote x @ '','' @ [CHR 0x0A])
                             (sort (map fst kvs)))
                  @ ''}'') g" for g
    by (simp add: Let_def keys_Print [of kvs fmt quote, OF PrettyPrint_emitted] Print_Print)
  from emitted_eq [of fmt quote "VStrMap t kvs", OF this]
  have "emitted fmt quote (VStrMap t kvs)
        = t @ ''{'' @ [CHR 0x0A]
                  @ concat (map (\<lambda>k. case map_of kvs k of
                                      None \<Rightarrow> []
                                    | Some x \<Rightarrow> quote k @ '': '' @ emitted fmt quote x @ '','' @ [CHR 0x0A])
                             (sort (map fst kvs)))
                  @ ''}''" .
  moreover have "map (\<lambda>k. case map_of kvs k of
                                      None \<Rightarrow> []
                                    | Some x \<Rightarrow> quote k @ '': '' @ emitted fmt quote x @ '','' @ [CHR 0x0A])
                             (sort (map fst kvs))
      = map (\<lambda>k. quote k @ '': '' @ emitted fmt quote (the (map_of kvs k)) @ '','' @ [CHR 0x0A])
                         (sort (map fst kvs))"
  proof (rule map_cong [OF refl])
    fix k
    assume "k \<in> set (sort (map fst kvs))"
    then have "k \<in> fst ` set kvs" by simp
    then have "map_of kvs k \<noteq> None" by (simp add: map_of_eq_None_iff)
    then obtain x where "map_of kvs k = Some x" by (cases "map_of kvs k") auto
    then show "(case map_of kvs k of
                                      None \<Rightarrow> []
                                    | Some x \<Rightarrow> quote k @ '': '' @ emitted fmt quote x @ '','' @ [CHR 0x0A])
          = quote k @ '': '' @ emitted fmt quote (the (map_of kvs k)) @ '','' @ [CHR 0x0A]"
      by simp
  qed
  ultimately show "emitted fmt quote (VStrMap t kvs)
           = t @ ''{'' @ [CHR 0x0A]
             @ concat (map (\<lambda>k. quote k @ '': '' @ emitted fmt quote (the (map_of kvs k)) @ '','' @ [CHR 0x0A])
                         (sort (map fst kvs)))
             @ ''}''"
    by (simp only:)
qed

lemma demo_same_services: "same demoServiceMap demoServiceMap'"
  unfolding demoServiceMap_def demoServiceMap'_def
  by (rule same_StrMap) (auto intro!: same.intros)

lemma demo_same_schemas: "same demoSchemas demoSchemas'"
  unfolding demoSchemas_def demoSchemas'_def
  by (rule same_StrMap) (auto intro!: same.intros)

theorem emission_deterministic_witness:
  "emitServices goQuote goQuote ''services'' ''schemas'' demoServiceMap demoSchemas
     = emitServices goQuote goQuote ''services'' ''schemas'' demoServiceMap' demoSchemas'
   \<and> emitted goQuote goQuote demoSchemas
       = ''map[string]string{'' @ [CHR 0x0A]
         @ goQuote ''https://schemas.example/status.json'' @ '': '' @ goQuote ''[]'' @ '','' @ [CHR 0x0A]
         @ goQuote ''https://schemas.example/task.json'' @ '': '' @ goQuote ''{}'' @ '','' @ [CHR 0x0A]
         @ ''}''"
proof -
  have sk: "stringKeyed demoServiceMap" "stringKeyed demoSchemas"
    by (simp_all add: demoServiceMap_def demoSchemas_def)
  note t = emission_deterministic [OF demo_same_services demo_same_schemas sk, of goQuote goQuote "''services''" "''schemas''"
      "''map[string]string''"
      "[(''https://schemas.example/task.json'', VOther ''{}''),
        (''https://schemas.example/status.json'', VOther ''[]'')]"]
  have "sort [''https://schemas.example/task.json'', ''https://schemas.example/status.json'']
      = [''https://schemas.example/status.json'', ''https://schemas.example/task.json'']"
    by (simp add: less_eq_list_code less_list_code less_char_def less_eq_char_def)
  with t show ?thesis
    by (simp add: demoSchemas_def emitted_def goQuote_def Print_def)
qed

end
